(* ===== verification/Hub_Prelude.thy ===== *)
theory Hub_Prelude
  imports Complex_Main "HOL-Library.Word" "HOL-Library.State_Monad" "HOL-Library.Log_Nat"
begin

text \<open>
  What the components share: the machine integers of the firmware, Rust's panicking slice
  operations, strings against byte slices, and lemma collections.

  A Rust \<open>String\<close> or \<open>&str\<close> is a HOL \<^typ>\<open>string\<close>: a \<^typ>\<open>char\<close> is one byte of the UTF-8
  text, so \<open>length\<close> counts what \<open>len()\<close> counts. A \<open>[u8]\<close> slice is a list of 8-bit words.
\<close>

unbundle bit_operations_syntax

named_theorems hub_defs \<open>definitions unfolded to run a handler on concrete input\<close>
named_theorems traced_intro \<open>trace postconditions of the handlers and of the ways to combine them\<close>

section \<open>Machine integers\<close>

type_synonym u8 = "8 word"
type_synonym u16 = "16 word"
type_synonym u32 = "32 word"
type_synonym i16 = "16 word"
type_synonym i32 = "32 word"
type_synonym i64 = "64 word"
type_synonym bytes = "u8 list"

definition i64_max :: int where
  "i64_max = 9223372036854775807"

definition i64_min :: int where
  "i64_min = - 9223372036854775808"

text \<open>\<open>i64::saturating_sub\<close>: the exact difference, clamped to the range of the type.\<close>

definition i64_saturating_sub :: "i64 \<Rightarrow> i64 \<Rightarrow> i64" where
  "i64_saturating_sub a b = word_of_int (max i64_min (min i64_max (sint a - sint b)))"

lemma sint_i64_range: "i64_min \<le> sint (a :: i64)" "sint (a :: i64) \<le> i64_max"
  using sint_ge [of a] sint_lt [of a] by (simp_all add: i64_min_def i64_max_def)

lemma sint_of_int_i64:
  assumes "i64_min \<le> k" "k \<le> i64_max"
  shows "sint (word_of_int k :: i64) = k"
  using assms by (simp add: sint_sbintrunc' signed_take_bit_int_eq_self i64_min_def i64_max_def)

lemma sint_i64_saturating_sub:
  "sint (i64_saturating_sub a b) = max i64_min (min i64_max (sint a - sint b))"
  unfolding i64_saturating_sub_def
  by (rule sint_of_int_i64) (simp_all add: i64_min_def i64_max_def)

lemma uint_eq_sint: "0 \<le> sint (w :: 'a::len word) \<Longrightarrow> uint w = sint w"
proof -
  assume nn: "0 \<le> sint w"
  have "sint w < 2 ^ (LENGTH('a) - 1)" by (rule sint_lt)
  also have "\<dots> \<le> (2::int) ^ LENGTH('a)" by (rule power_increasing) simp_all
  finally have "sint w < 2 ^ LENGTH('a)" .
  with nn show ?thesis by (simp add: uint_sint take_bit_int_eq_self)
qed

section \<open>Panics\<close>

text \<open>
  Indexing and slicing panic out of range, and \<open>copy_from_slice\<close> panics on different
  lengths. The firmware is built with \<open>panic_abort\<close>, so a panic restarts the device.
\<close>

datatype 'a rs = Panic | Val (rs_val: 'a)

primrec rs_bind :: "'a rs \<Rightarrow> ('a \<Rightarrow> 'b rs) \<Rightarrow> 'b rs" where
  "rs_bind Panic f = Panic"
| "rs_bind (Val a) f = f a"

definition index :: "'a list \<Rightarrow> nat \<Rightarrow> 'a rs" where
  "index xs i = (if i < length xs then Val (xs ! i) else Panic)"

definition slice :: "'a list \<Rightarrow> nat \<Rightarrow> nat \<Rightarrow> 'a list rs" where
  "slice xs a b = (if a \<le> b \<and> b \<le> length xs then Val (take (b - a) (drop a xs)) else Panic)"

definition store :: "'a list \<Rightarrow> nat \<Rightarrow> 'a \<Rightarrow> 'a list rs" where
  "store xs i x = (if i < length xs then Val (xs[i := x]) else Panic)"

text \<open>\<open>xs[a..b].copy_from_slice(src)\<close>.\<close>

definition copy_from_slice :: "'a list \<Rightarrow> nat \<Rightarrow> nat \<Rightarrow> 'a list \<Rightarrow> 'a list rs" where
  "copy_from_slice xs a b src =
     (if a \<le> b \<and> b \<le> length xs \<and> length src = b - a
      then Val (take a xs @ src @ drop b xs) else Panic)"

lemma rs_bind_Val_iff: "rs_bind m f = Val b \<longleftrightarrow> (\<exists>a. m = Val a \<and> f a = Val b)"
  by (cases m) auto

lemma index_Val [simp]: "i < length xs \<Longrightarrow> index xs i = Val (xs ! i)"
  by (simp add: index_def)

lemma slice_Val [simp]:
  "a \<le> b \<Longrightarrow> b \<le> length xs \<Longrightarrow> slice xs a b = Val (take (b - a) (drop a xs))"
  by (simp add: slice_def)

lemma store_Val [simp]: "i < length xs \<Longrightarrow> store xs i x = Val (xs[i := x])"
  by (simp add: store_def)

lemma copy_from_slice_Val [simp]:
  "a \<le> b \<Longrightarrow> b \<le> length xs \<Longrightarrow> length src = b - a \<Longrightarrow>
   copy_from_slice xs a b src = Val (take a xs @ src @ drop b xs)"
  by (simp add: copy_from_slice_def)

section \<open>Strings and bytes\<close>

definition str_of_bytes :: "bytes \<Rightarrow> string" where
  "str_of_bytes = map (\<lambda>b. char_of (unat b))"

definition bytes_of_str :: "string \<Rightarrow> bytes" where
  "bytes_of_str = map (\<lambda>c. word_of_nat (of_char c))"

lemma unat_u8_mod [simp]: "unat (b :: u8) mod 256 = unat b"
  using unsigned_less [of b, where ?'a = nat] by simp

lemma unat_u8_less [simp]: "unat (b :: u8) < 256"
  using unsigned_less [of b, where ?'a = nat] by simp

lemma bytes_of_str_of_bytes [simp]: "bytes_of_str (str_of_bytes bs) = bs"
  by (induction bs) (simp_all add: bytes_of_str_def str_of_bytes_def)

lemma byte_of_char_unat [simp]: "unat (word_of_nat (of_char c) :: u8) = of_char c"
  by (simp add: unat_of_nat take_bit_eq_mod)

lemma str_of_bytes_of_str [simp]: "str_of_bytes (bytes_of_str s) = s"
  by (induction s) (simp_all add: bytes_of_str_def str_of_bytes_def)

lemma length_bytes_of_str [simp]: "length (bytes_of_str s) = length s"
  by (simp add: bytes_of_str_def)

lemma length_str_of_bytes [simp]: "length (str_of_bytes bs) = length bs"
  by (simp add: str_of_bytes_def)

lemma str_of_bytes_inject [simp]: "str_of_bytes a = str_of_bytes b \<longleftrightarrow> a = b"
  by (metis bytes_of_str_of_bytes)

lemma bytes_of_str_append [simp]: "bytes_of_str (s @ t) = bytes_of_str s @ bytes_of_str t"
  by (simp add: bytes_of_str_def)

lemma bytes_of_str_Cons: "bytes_of_str (c # s) = word_of_nat (of_char c) # bytes_of_str s"
  by (simp add: bytes_of_str_def)

lemma bytes_of_str_Nil [simp]: "bytes_of_str [] = []"
  by (simp add: bytes_of_str_def)

section \<open>Automata that read a list\<close>

text \<open>From one state to the next, element by element; \<open>None\<close> is a violation.\<close>

primrec run_steps :: "('e \<Rightarrow> 's \<Rightarrow> 's option) \<Rightarrow> 'e list \<Rightarrow> 's \<Rightarrow> 's option" where
  "run_steps step [] s = Some s"
| "run_steps step (e # es) s = Option.bind (step e s) (run_steps step es)"

lemma run_steps_append:
  "run_steps step (a @ b) s = Option.bind (run_steps step a s) (run_steps step b)"
  by (induction a arbitrary: s) (simp_all split: Option.bind_split)

text \<open>A prefix of an accepted list is accepted.\<close>

lemma run_steps_prefix:
  "run_steps step (a @ b) s = Some u \<Longrightarrow> \<exists>t. run_steps step a s = Some t"
  by (auto simp: run_steps_append split: Option.bind_splits)

section \<open>Encoders\<close>

text \<open>
  The contract several wire formats of the hub share: on the values it is meant for, an
  encoder is inverted by its decoder.
\<close>

locale codec =
  fixes enc :: "'a \<Rightarrow> 'b" and dec :: "'b \<Rightarrow> 'a option" and ok :: "'a \<Rightarrow> bool"
  assumes dec_enc: "ok x \<Longrightarrow> dec (enc x) = Some x"
begin

lemma enc_inject: "ok x \<Longrightarrow> ok y \<Longrightarrow> enc x = enc y \<longleftrightarrow> x = y"
  using dec_enc by (metis option.inject)

lemma inj_on_enc: "inj_on enc {x. ok x}"
  by (auto simp: inj_on_def enc_inject)

lemma map_enc_inject:
  "list_all ok xs \<Longrightarrow> list_all ok ys \<Longrightarrow> map enc xs = map enc ys \<longleftrightarrow> xs = ys"
proof (induction xs arbitrary: ys)
  case Nil
  then show ?case by auto
next
  case (Cons x xs)
  then show ?case by (cases ys) (auto simp: enc_inject)
qed

end

end
