(* ===== verification/World.thy ===== *)
theory World
  imports Hub_Prelude
begin

text \<open>
  The hub and what lies outside it. Every call the firmware makes into ESP-IDF, NimBLE, tonic or
  the clock is an event of a history, together with the answer it got. What answers is an
  \<open>env\<close>: for every call a function from the history so far (and the arguments of the call) to the
  answer, so an environment may behave in any way that does not look into the future, and a
  statement over all environments is a statement over all sequences of answers.

  A handler is a state-monad program over the \<open>world\<close> (the environment and the history so far).
  \<open>traced E m Q\<close> says of a program \<open>m\<close> that from every world with environment \<open>E\<close> it ends, that all it does to the world
  is to append some events \<open>tr\<close> to the history, and that these events and the result satisfy
  \<open>Q\<close>; \<open>E\<close> is the world's environment, of which only the pure library functions matter here, the
  answers of calls being arbitrary. The rules in \<open>traced_intro\<close> compute such postconditions backwards through a program.
\<close>

section \<open>Data that crosses the boundary\<close>

text \<open>
  An \<open>f64\<close> is its exact rational value (no NaN or infinity arises in this code); where the code
  divides, the rounding is modelled (theory \<open>Sensor_Decode\<close>).
\<close>

type_synonym f64 = rat

text \<open>
  \<open>anyhow::Error\<close>: an error of a library, a wrapped one (\<open>.context(..)\<close>), or one raised by the
  hub's own \<open>bail!\<close>, with the values its message shows.
\<close>

datatype error =
    External string
  | Context string error
  | UnsupportedAction u8
  | InvalidUuidChar u8
  | UuidTooLong
  | UuidDigitCount
  | ExpiredBeforeEncode
  | PayloadTooShort string bytes
  | HumiditySentinel bytes
  | HumidityOutOfRange bytes u16
  | NotReady error
  | ServerRejected string
  | SetupAcksFailed nat nat
  | AlreadyClaimed
  | SntpTimeout
  | SsidNotFound string

type_synonym 'a res = "error + 'a"

datatype motor_status =
  StatusSentToProbe | StatusExecuting | StatusSucceeded | StatusFailed | StatusExpired

datatype motor_reason =
  ReasonNone | ReasonExpired | ReasonUartTimeout | ReasonUartRejected | ReasonBleWriteFailed

datatype motor_action = ActionUnspecified | ActionRunForDuration | ActionStop

record motor_command =
  mc_command_id :: string
  mc_node_id :: string
  mc_action :: i32
  mc_duration_ms :: i32
  mc_expires_at :: i64

record pull_request =
  pr_hub_id :: string
  pr_max_commands :: i32
  pr_lease_duration_ms :: i32

record ack_request =
  ar_command_id :: string
  ar_hub_id :: string
  ar_node_id :: string
  ar_status :: motor_status
  ar_reason_code :: motor_reason
  ar_reason_message :: string

record insert_request =
  ir_node_id :: string
  ir_air_temperature :: f64
  ir_air_pressure :: f64
  ir_air_humidity :: f64
  ir_soil_temperature :: f64
  ir_soil_humidity :: f64
  ir_timestamp :: i64

record insert_response =
  is_success :: bool
  is_message :: string

type_synonym ble_addr = bytes

record manufacturer_data =
  company_identifier :: u16
  mfg_payload :: bytes

record advertisement =
  adv_addr :: ble_addr
  adv_name :: "string option"
  adv_mfg :: "manufacturer_data option"

text \<open>\<open>SystemTime::now().duration_since(UNIX_EPOCH)\<close>: an error before 1970, else milliseconds.\<close>

datatype clock_reading = BeforeEpoch | SinceEpochMs nat

text \<open>\<open>esp_idf_svc::sntp::SyncStatus\<close>; the gRPC status of a refused claim, as far as it is looked at.\<close>

datatype sync_status = SyncReset | SyncCompleted | SyncInProgress

datatype claim_failure = FailedPrecondition | OtherStatus error

datatype gatt_property = PropRead | PropWrite | PropNotify

section \<open>Events and environments\<close>

text \<open>Calls into non-volatile storage, with namespace and key.\<close>

datatype flash_event =
    NvsOpen string bool "unit res"
  | NvsStrLen string string "nat option res"
  | NvsGetStr string string nat "string option res"
  | NvsSetStr string string string "unit res"
  | NvsRemove string string "bool res"

text \<open>Calls into the Wi-Fi driver; a scan answers with the SSIDs in range.\<close>

datatype wifi_event =
    WifiSetConfiguration string string "unit res"
  | WifiStart "unit res"
  | WifiScan "string list res"
  | WifiConnect "unit res"
  | WifiNetifUp "unit res"
  | WifiIpInfo "unit res"
  | WifiDisconnect "unit res"
  | WifiStop "unit res"

text \<open>
  The GATT server of the provisioning mode. \<open>ClientWrites\<close> are the writes of the phone since
  the last look at them, as pairs of characteristic and bytes.
\<close>

datatype gatt_event =
    GattService string
  | GattCharacteristic string "gatt_property list"
  | GattValue string bytes
  | GattNotify string
  | AdvSetData string string "unit res"
  | AdvStart "unit res"
  | ClientWrites "(string \<times> bytes) list"

text \<open>An RPC event starts with the value of its \<open>authorization\<close> header, except the claim.\<close>

datatype event =
    ClockRead clock_reading
  | EspTime i64
  | SleepMs nat
  | GateLock
  | GateUnlock
  | RuntimeBuild "unit res"
  | Dial "unit res"
  | Ready "unit res"
  | InsertRpc string insert_request "insert_response res"
  | PullRpc string pull_request "motor_command list res"
  | AckRpc string ack_request "motor_command option res"
  | ScanRun "advertisement list" "unit res"
  | BleConnect ble_addr "unit res"
  | BleDisconnect
  | GetService string "unit res"
  | GetCharacteristic string "unit res"
  | ReadValue string "bytes res"
  | WriteValue string bytes "unit res"
  | Flash flash_event
  | Wifi wifi_event
  | Gatt gatt_event
  | Driver string "unit res"
  | SntpStart "unit res"
  | SntpStatus sync_status
  | AuthDial "unit res"
  | ClaimRpc string string "claim_failure + string"
  | EspRestart

type_synonym history = "event list"

record flash_env =
  nvs_open_at :: "history \<Rightarrow> string \<Rightarrow> bool \<Rightarrow> unit res"
  nvs_str_len_at :: "history \<Rightarrow> string \<Rightarrow> string \<Rightarrow> nat option res"
  nvs_get_str_at :: "history \<Rightarrow> string \<Rightarrow> string \<Rightarrow> nat \<Rightarrow> string option res"
  nvs_set_str_at :: "history \<Rightarrow> string \<Rightarrow> string \<Rightarrow> string \<Rightarrow> unit res"
  nvs_remove_at :: "history \<Rightarrow> string \<Rightarrow> string \<Rightarrow> bool res"

record wifi_env =
  ssid_try_into :: "string \<Rightarrow> unit res"
  password_try_into :: "string \<Rightarrow> unit res"
  wifi_set_configuration_at :: "history \<Rightarrow> string \<Rightarrow> string \<Rightarrow> unit res"
  wifi_start_at :: "history \<Rightarrow> unit res"
  wifi_scan_at :: "history \<Rightarrow> string list res"
  wifi_connect_at :: "history \<Rightarrow> unit res"
  wifi_netif_up_at :: "history \<Rightarrow> unit res"
  wifi_ip_info_at :: "history \<Rightarrow> unit res"
  wifi_disconnect_at :: "history \<Rightarrow> unit res"
  wifi_stop_at :: "history \<Rightarrow> unit res"

record gatt_env =
  adv_set_data_at :: "history \<Rightarrow> unit res"
  adv_start_at :: "history \<Rightarrow> unit res"
  client_writes_at :: "history \<Rightarrow> (string \<times> bytes) list"

record env =
  clock_at :: "history \<Rightarrow> clock_reading"
  esp_time_at :: "history \<Rightarrow> i64"
  runtime_at :: "history \<Rightarrow> unit res"
  dial_at :: "history \<Rightarrow> unit res"
  bearer_metadata :: "string \<Rightarrow> unit res"
  ready_at :: "history \<Rightarrow> unit res"
  insert_at :: "history \<Rightarrow> insert_request \<Rightarrow> insert_response res"
  pull_at :: "history \<Rightarrow> pull_request \<Rightarrow> motor_command list res"
  ack_at :: "history \<Rightarrow> ack_request \<Rightarrow> motor_command option res"
  action_try_from :: "i32 \<Rightarrow> motor_action option"
  scan_at :: "history \<Rightarrow> advertisement list \<times> unit res"
  ble_connect_at :: "history \<Rightarrow> ble_addr \<Rightarrow> unit res"
  get_service_at :: "history \<Rightarrow> string \<Rightarrow> unit res"
  get_characteristic_at :: "history \<Rightarrow> string \<Rightarrow> unit res"
  read_value_at :: "history \<Rightarrow> string \<Rightarrow> bytes res"
  write_value_at :: "history \<Rightarrow> string \<Rightarrow> bytes \<Rightarrow> unit res"
  addr_display :: "ble_addr \<Rightarrow> string"
  flash_of :: flash_env
  wifi_of :: wifi_env
  gatt_of :: gatt_env
  driver_at :: "history \<Rightarrow> string \<Rightarrow> unit res"
  sntp_start_at :: "history \<Rightarrow> unit res"
  sntp_status_at :: "history \<Rightarrow> sync_status"
  auth_dial_at :: "history \<Rightarrow> unit res"
  claim_at :: "history \<Rightarrow> string \<Rightarrow> string \<Rightarrow> claim_failure + string"

record world =
  env_of :: env
  hist :: history

type_synonym 'a io = "(world, 'a) state"

text \<open>A call into the environment; an event without an answer; a pure library function.\<close>

definition ask :: "(env \<Rightarrow> history \<Rightarrow> 'r) \<Rightarrow> ('r \<Rightarrow> event) \<Rightarrow> 'r io" where
  "ask f ev = State (\<lambda>w. let r = f (env_of w) (hist w) in (r, w\<lparr>hist := hist w @ [ev r]\<rparr>))"

definition emit :: "event \<Rightarrow> unit io" where
  "emit e = State (\<lambda>w. ((), w\<lparr>hist := hist w @ [e]\<rparr>))"

definition library :: "(env \<Rightarrow> 'a) \<Rightarrow> 'a io" where
  "library f = State (\<lambda>w. (f (env_of w), w))"

text \<open>\<open>for x in xs { .. }\<close> over a loop state.\<close>

fun for_each :: "'x list \<Rightarrow> ('x \<Rightarrow> 's \<Rightarrow> 's io) \<Rightarrow> 's \<Rightarrow> 's io" where
  "for_each [] f s = State_Monad.return s"
| "for_each (x # xs) f s = do { s' \<leftarrow> f x s; for_each xs f s' }"

lemma run_ask [simp]:
  "run_state (ask f ev) w =
     (f (env_of w) (hist w), w\<lparr>hist := hist w @ [ev (f (env_of w) (hist w))]\<rparr>)"
  by (simp add: ask_def Let_def)

lemma run_emit [simp]: "run_state (emit e) w = ((), w\<lparr>hist := hist w @ [e]\<rparr>)"
  by (simp add: emit_def)

lemma run_library [simp]: "run_state (library f) w = (f (env_of w), w)"
  by (simp add: library_def)

section \<open>Trace postconditions\<close>

definition traced :: "env \<Rightarrow> 'a io \<Rightarrow> (history \<Rightarrow> 'a \<Rightarrow> bool) \<Rightarrow> bool" where
  "traced E m Q \<longleftrightarrow>
     (\<forall>w. env_of w = E \<longrightarrow>
        (\<exists>tr r. run_state m w = (r, w\<lparr>hist := hist w @ tr\<rparr>) \<and> Q tr r))"

lemma tracedI:
  assumes "\<And>w. env_of w = E \<Longrightarrow>
    \<exists>tr r. run_state m w = (r, w\<lparr>hist := hist w @ tr\<rparr>) \<and> Q tr r"
  shows "traced E m Q"
  using assms by (simp add: traced_def)

lemma tracedD:
  assumes "traced E m Q" "env_of w = E" "run_state m w = (r, w')"
  obtains tr where "w' = w\<lparr>hist := hist w @ tr\<rparr>" "Q tr r"
  using assms unfolding traced_def by (metis prod.inject)

text \<open>The same for a stated history: what was appended is determined.\<close>

lemma traced_run:
  assumes "traced (env_of w) m Q" "run_state m w = (r, w')" "hist w' = hist w @ tr"
  shows "Q tr r"
  using assms by (elim tracedD) auto

lemma traced_conseq:
  assumes "traced E m R" "\<And>tr r. R tr r \<Longrightarrow> Q tr r"
  shows "traced E m Q"
  using assms unfolding traced_def by metis

lemma traced_conj:
  assumes "traced E m P" "traced E m Q"
  shows "traced E m (\<lambda>tr r. P tr r \<and> Q tr r)"
proof (rule tracedI)
  fix w :: world assume w: "env_of w = E"
  obtain r w' where run: "run_state m w = (r, w')" by (cases "run_state m w")
  from tracedD [OF assms(1) w run] obtain tr where tr: "w' = w\<lparr>hist := hist w @ tr\<rparr>" "P tr r" .
  with traced_run [OF _ run, of Q tr] assms(2) w have "Q tr r" by simp
  with run tr show "\<exists>tr r. run_state m w = (r, w\<lparr>hist := hist w @ tr\<rparr>) \<and> P tr r \<and> Q tr r"
    by blast
qed

lemma traced_return [traced_intro]: "Q [] r \<Longrightarrow> traced E (State_Monad.return r) Q"
  by (auto simp: traced_def intro!: exI [of _ "[]"])

lemma traced_bind [traced_intro]:
  assumes "traced E m (\<lambda>tr r. traced E (f r) (\<lambda>tr' r'. Q (tr @ tr') r'))"
  shows "traced E (m \<bind> f) Q"
proof (rule tracedI)
  fix w :: world assume w: "env_of w = E"
  with assms obtain tr r where m: "run_state m w = (r, w\<lparr>hist := hist w @ tr\<rparr>)"
    and f: "traced E (f r) (\<lambda>tr' r'. Q (tr @ tr') r')"
    unfolding traced_def by fast
  let ?w = "w\<lparr>hist := hist w @ tr\<rparr>"
  from f [unfolded traced_def, rule_format, of ?w] w obtain tr' r' where "run_state (f r) ?w = (r', ?w\<lparr>hist := hist ?w @ tr'\<rparr>)"
    and "Q (tr @ tr') r'"
    by auto
  with m show "\<exists>tr r. run_state (m \<bind> f) w = (r, w\<lparr>hist := hist w @ tr\<rparr>) \<and> Q tr r"
    by (intro exI [of _ "tr @ tr'"] exI [of _ r']) simp
qed

lemma traced_ask [traced_intro]: "(\<And>r. Q [ev r] r) \<Longrightarrow> traced E (ask f ev) Q"
  by (auto simp: traced_def)

lemma traced_emit [traced_intro]: "Q [e] () \<Longrightarrow> traced E (emit e) Q"
  by (auto simp: traced_def)

lemma traced_library [traced_intro]: "Q [] (f E) \<Longrightarrow> traced E (library f) Q"
  by (auto simp: traced_def intro!: exI [of _ "[]"])

lemma traced_if [traced_intro]:
  "(b \<Longrightarrow> traced E m Q) \<Longrightarrow> (\<not> b \<Longrightarrow> traced E n Q) \<Longrightarrow> traced E (if b then m else n) Q"
  by simp

lemma traced_case_sum [traced_intro]:
  "(\<And>e. s = Inl e \<Longrightarrow> traced E (f e) Q) \<Longrightarrow> (\<And>a. s = Inr a \<Longrightarrow> traced E (g a) Q) \<Longrightarrow>
   traced E (case s of Inl e \<Rightarrow> f e | Inr a \<Rightarrow> g a) Q"
  by (cases s) auto

lemma traced_case_option [traced_intro]:
  "(x = None \<Longrightarrow> traced E m Q) \<Longrightarrow> (\<And>a. x = Some a \<Longrightarrow> traced E (g a) Q) \<Longrightarrow>
   traced E (case x of None \<Rightarrow> m | Some a \<Rightarrow> g a) Q"
  by (cases x) auto

lemma traced_case_prod [traced_intro]:
  "(\<And>a b. p = (a, b) \<Longrightarrow> traced E (f a b) Q) \<Longrightarrow> traced E (case p of (a, b) \<Rightarrow> f a b) Q"
  by (cases p) auto

lemma traced_Let [traced_intro]: "traced E (f x) Q \<Longrightarrow> traced E (let y = x in f y) Q"
  by simp

text \<open>
  A loop keeps an invariant that relates the elements still to come, the events so far and the
  loop state.
\<close>

lemma traced_for_each_rest:
  assumes "I xs [] s"
    and "\<And>x rest tr s. I (x # rest) tr s \<Longrightarrow> traced E (f x s) (\<lambda>tr' s'. I rest (tr @ tr') s')"
  shows "traced E (for_each xs f s) (I [])"
proof -
  have "traced E (for_each ys f s) (\<lambda>tr'. I [] (tr @ tr'))" if "I ys tr s" for ys tr s
    using that
  proof (induction ys arbitrary: tr s)
    case Nil
    then show ?case by (auto intro: traced_return)
  next
    case (Cons y ys)
    from assms(2) [OF Cons.prems] show ?case
      using Cons.IH [where tr = "tr @ _"] by (auto intro!: traced_bind elim!: traced_conseq)
  qed
  from this [OF assms(1)] show ?thesis by simp
qed

lemma traced_for_each:
  assumes "I [] s"
    and "\<And>x tr s. x \<in> set xs \<Longrightarrow> I tr s \<Longrightarrow> traced E (f x s) (\<lambda>tr' s'. I (tr @ tr') s')"
  shows "traced E (for_each xs f s) I"
  by (rule traced_conseq, rule traced_for_each_rest [where
        I = "\<lambda>rest tr s. set rest \<subseteq> set xs \<and> I tr s"])
    (auto intro: assms(1) traced_conseq [OF assms(2)])

section \<open>Properties of traces that are kept by sequencing\<close>

text \<open>
  A relation between the state before, the events and the state after that is kept by doing nothing
  and by doing one thing after another. A handler that passes a state along has it when its parts do.
\<close>

locale trace_relation =
  fixes R :: "'s \<Rightarrow> history \<Rightarrow> 's \<Rightarrow> bool"
  assumes idle: "R s [] s" and compose: "R s a t \<Longrightarrow> R t b u \<Longrightarrow> R s (a @ b) u"
begin

lemma return: "traced E (State_Monad.return s) (R s)"
  by (rule traced_return) (rule idle)

lemma bind:
  assumes "traced E m (R s)" "\<And>t. traced E (f t) (R t)"
  shows "traced E (m \<bind> f) (R s)"
  by (rule traced_bind, rule traced_conseq [OF assms(1)], rule traced_conseq [OF assms(2)])
    (auto intro: compose)

lemma loop:
  assumes "\<And>x s. x \<in> set xs \<Longrightarrow> traced E (f x s) (R s)"
  shows "traced E (for_each xs f s) (R s)"
  by (rule traced_for_each [where I = "R s"])
    (auto intro: idle compose traced_conseq [OF assms])

end

text \<open>
  The special case in which the states do not matter: the empty trace has the property, and so does
  the concatenation of two traces that have it.
\<close>

locale trace_monoid =
  fixes P :: "history \<Rightarrow> bool"
  assumes nil: "P []" and append: "P a \<Longrightarrow> P b \<Longrightarrow> P (a @ b)"
begin

lemma bind:
  assumes "traced E m (\<lambda>tr _. P tr)" "\<And>r. traced E (f r) (\<lambda>tr _. P tr)"
  shows "traced E (m \<bind> f) (\<lambda>tr _. P tr)"
  by (rule traced_bind, rule traced_conseq [OF assms(1)], rule traced_conseq [OF assms(2)])
    (auto intro: append)

end

sublocale trace_monoid \<subseteq> stateless: trace_relation "\<lambda>_ tr _. P tr"
  by unfold_locales (auto intro: nil append)

interpretation all_events: trace_monoid "list_all p" for p
  by unfold_locales auto

section \<open>Counting\<close>

text \<open>How long an event pauses the thread; how many events of a kind a trace has.\<close>

fun sleeps :: "event \<Rightarrow> nat" where
  "sleeps (SleepMs n) = n"
| "sleeps _ = 0"

definition count :: "(event \<Rightarrow> bool) \<Rightarrow> history \<Rightarrow> nat" where
  "count P tr = length (filter P tr)"

lemma count_simps [simp]:
  "count P [] = 0" "count P (e # tr) = (if P e then 1 else 0) + count P tr"
  "count P (a @ b) = count P a + count P b"
  by (simp_all add: count_def)

section \<open>A concrete environment\<close>

text \<open>
  Used to evaluate the handlers on concrete input: every call succeeds, the clock stands at 1000
  milliseconds, nothing is pulled, no probe is in range and one access point is, the flash is empty.
\<close>

definition calm_env :: env where
  "calm_env = \<lparr>
     clock_at = \<lambda>_. SinceEpochMs 1000,
     esp_time_at = \<lambda>_. 1,
     runtime_at = \<lambda>_. Inr (),
     dial_at = \<lambda>_. Inr (),
     bearer_metadata = \<lambda>_. Inr (),
     ready_at = \<lambda>_. Inr (),
     insert_at = \<lambda>_ _. Inr \<lparr>is_success = True, is_message = []\<rparr>,
     pull_at = \<lambda>_ _. Inr [],
     ack_at = \<lambda>_ _. Inr None,
     action_try_from = \<lambda>a. if a = 0 then Some ActionUnspecified
        else if a = 1 then Some ActionRunForDuration
        else if a = 2 then Some ActionStop else None,
     scan_at = \<lambda>_. ([], Inr ()),
     ble_connect_at = \<lambda>_ _. Inr (),
     get_service_at = \<lambda>_ _. Inr (),
     get_characteristic_at = \<lambda>_ _. Inr (),
     read_value_at = \<lambda>_ _. Inr [],
     write_value_at = \<lambda>_ _ _. Inr (),
     addr_display = str_of_bytes,
     flash_of = \<lparr>nvs_open_at = \<lambda>_ _ _. Inr (), nvs_str_len_at = \<lambda>_ _ _. Inr None,
       nvs_get_str_at = \<lambda>_ _ _ _. Inr None, nvs_set_str_at = \<lambda>_ _ _ _. Inr (),
       nvs_remove_at = \<lambda>_ _ _. Inr False\<rparr>,
     wifi_of = \<lparr>ssid_try_into = \<lambda>_. Inr (), password_try_into = \<lambda>_. Inr (),
       wifi_set_configuration_at = \<lambda>_ _ _. Inr (), wifi_start_at = \<lambda>_. Inr (),
       wifi_scan_at = \<lambda>_. Inr [''home''], wifi_connect_at = \<lambda>_. Inr (),
       wifi_netif_up_at = \<lambda>_. Inr (), wifi_ip_info_at = \<lambda>_. Inr (),
       wifi_disconnect_at = \<lambda>_. Inr (), wifi_stop_at = \<lambda>_. Inr ()\<rparr>,
     gatt_of = \<lparr>adv_set_data_at = \<lambda>_. Inr (), adv_start_at = \<lambda>_. Inr (),
       client_writes_at = \<lambda>_. []\<rparr>,
     driver_at = \<lambda>_ _. Inr (),
     sntp_start_at = \<lambda>_. Inr (),
     sntp_status_at = \<lambda>_. SyncCompleted,
     auth_dial_at = \<lambda>_. Inr (),
     claim_at = \<lambda>_ _ _. Inr ''token''\<rparr>"

definition calm_world :: world where
  "calm_world = \<lparr>env_of = calm_env, hist = []\<rparr>"

lemmas calm_defs = calm_world_def calm_env_def

text \<open>A property of traces at the run of a program from a world without history.\<close>

lemma traced_fresh:
  assumes "traced (env_of w) m Q" "hist w = []"
  shows "Q (hist (snd (run_state m w))) (fst (run_state m w))"
    and "run_state m w = (fst (run_state m w), w\<lparr>hist := hist w @ hist (snd (run_state m w))\<rparr>)"
proof -
  obtain r w' where run: "run_state m w = (r, w')" by (cases "run_state m w")
  from tracedD [OF assms(1) refl run] obtain tr where "w' = w\<lparr>hist := hist w @ tr\<rparr>" "Q tr r" .
  with run assms(2) show "Q (hist (snd (run_state m w))) (fst (run_state m w))"
    and "run_state m w = (fst (run_state m w), w\<lparr>hist := hist w @ hist (snd (run_state m w))\<rparr>)"
    by simp_all
qed

lemma calm_world_simps [simp]: "env_of calm_world = calm_env" "hist calm_world = []"
  by (simp_all add: calm_world_def)

end
