(* ===== verification/Runs.thy ===== *)
theory Runs
  imports World
begin

text \<open>
  Programs run from a given history. \<open>traced\<close> speaks of the events a program adds; where what
  happened before matters, as for the contents of the flash, \<open>ends E h m Q\<close> says that \<open>m\<close> started
  with the history \<open>h\<close> ends, only extends the history, and leaves a whole history and a result that
  satisfy \<open>Q\<close>. \<open>kept P h\<close> says that \<open>P\<close> held at every moment of \<open>h\<close>, also between two events, which
  is where a device may lose power.
\<close>

section \<open>Programs from a given history\<close>

named_theorems ends_intro \<open>postconditions of a program from a given history\<close>

definition ends :: "env \<Rightarrow> history \<Rightarrow> 'a io \<Rightarrow> (history \<Rightarrow> 'a \<Rightarrow> bool) \<Rightarrow> bool" where
  "ends E h m Q \<longleftrightarrow>
     (\<exists>tr r. run_state m \<lparr>env_of = E, hist = h\<rparr> = (r, \<lparr>env_of = E, hist = h @ tr\<rparr>) \<and> Q (h @ tr) r)"

lemma ends_traced:
  assumes "traced E m P" "\<And>tr r. P tr r \<Longrightarrow> Q (h @ tr) r"
  shows "ends E h m Q"
proof -
  from assms(1) obtain tr r where
    "run_state m \<lparr>env_of = E, hist = h\<rparr> = (r, \<lparr>env_of = E, hist = h @ tr\<rparr>)" "P tr r"
    unfolding traced_def by (elim allE [of _ "\<lparr>env_of = E, hist = h\<rparr>"]) auto
  with assms(2) show ?thesis unfolding ends_def by blast
qed

lemma ends_conseq: "ends E h m P \<Longrightarrow> (\<And>h' r. P h' r \<Longrightarrow> Q h' r) \<Longrightarrow> ends E h m Q"
  unfolding ends_def by blast

lemma ends_conj: "ends E h m P \<Longrightarrow> ends E h m Q \<Longrightarrow> ends E h m (\<lambda>h' r. P h' r \<and> Q h' r)"
  unfolding ends_def by auto

lemma ends_return [ends_intro]: "Q h r \<Longrightarrow> ends E h (State_Monad.return r) Q"
  by (auto simp: ends_def intro!: exI [of _ "[]"])

lemma ends_bind [ends_intro]:
  assumes "ends E h m (\<lambda>h' r. ends E h' (f r) Q)"
  shows "ends E h (m \<bind> f) Q"
proof -
  from assms obtain tr r tr' r' where
    "run_state m \<lparr>env_of = E, hist = h\<rparr> = (r, \<lparr>env_of = E, hist = h @ tr\<rparr>)"
    "run_state (f r) \<lparr>env_of = E, hist = h @ tr\<rparr> = (r', \<lparr>env_of = E, hist = (h @ tr) @ tr'\<rparr>)"
    "Q ((h @ tr) @ tr') r'"
    unfolding ends_def by fastforce
  then show ?thesis unfolding ends_def by (intro exI [of _ "tr @ tr'"] exI [of _ r']) simp
qed

lemma ends_ask [ends_intro]:
  "Q (h @ [ev (f E h)]) (f E h) \<Longrightarrow> ends E h (ask f ev) Q"
  by (auto simp: ends_def)

lemma ends_emit [ends_intro]: "Q (h @ [e]) () \<Longrightarrow> ends E h (emit e) Q"
  by (auto simp: ends_def)

lemma ends_library [ends_intro]: "Q h (f E) \<Longrightarrow> ends E h (library f) Q"
  by (auto simp: ends_def intro!: exI [of _ "[]"])

lemma ends_if [ends_intro]:
  "(b \<Longrightarrow> ends E h m Q) \<Longrightarrow> (\<not> b \<Longrightarrow> ends E h n Q) \<Longrightarrow> ends E h (if b then m else n) Q"
  by simp

lemma ends_case_sum [ends_intro]:
  "(\<And>e. s = Inl e \<Longrightarrow> ends E h (f e) Q) \<Longrightarrow> (\<And>a. s = Inr a \<Longrightarrow> ends E h (g a) Q) \<Longrightarrow>
   ends E h (case s of Inl e \<Rightarrow> f e | Inr a \<Rightarrow> g a) Q"
  by (cases s) auto

lemma ends_case_option [ends_intro]:
  "(x = None \<Longrightarrow> ends E h m Q) \<Longrightarrow> (\<And>a. x = Some a \<Longrightarrow> ends E h (g a) Q) \<Longrightarrow>
   ends E h (case x of None \<Rightarrow> m | Some a \<Rightarrow> g a) Q"
  by (cases x) auto

lemma ends_case_prod [ends_intro]:
  "(\<And>a b. p = (a, b) \<Longrightarrow> ends E h (f a b) Q) \<Longrightarrow> ends E h (case p of (a, b) \<Rightarrow> f a b) Q"
  by (cases p) auto

lemma ends_Let [ends_intro]: "ends E h (f x) Q \<Longrightarrow> ends E h (let y = x in f y) Q"
  by simp

text \<open>A property of histories that held all the time.\<close>

definition kept :: "(history \<Rightarrow> bool) \<Rightarrow> history \<Rightarrow> bool" where
  "kept P h \<longleftrightarrow> (\<forall>k. P (take k h))"

lemma kept_now: "kept P h \<Longrightarrow> P h"
  unfolding kept_def by (metis take_all order_refl)

lemma kept_Nil [simp]: "kept P [] \<longleftrightarrow> P []"
  by (simp add: kept_def)

lemma kept_snoc: "kept P (h @ [e]) \<longleftrightarrow> kept P h \<and> P (h @ [e])"
proof
  assume k: "kept P (h @ [e])"
  have "P (take k h)" for k
    using k [unfolded kept_def, rule_format, of "min k (length h)"]
    by (simp add: min_def split: if_splits)
  with kept_now [OF k] show "kept P h \<and> P (h @ [e])" by (simp add: kept_def)
next
  assume a: "kept P h \<and> P (h @ [e])"
  have "P (take k (h @ [e]))" for k
    using a by (cases "k \<le> length h") (auto simp: kept_def)
  then show "kept P (h @ [e])" by (simp add: kept_def)
qed

section \<open>Errors\<close>

text \<open>\<open>.context(message)\<close> on a result.\<close>

definition context_res :: "string \<Rightarrow> 'a res \<Rightarrow> 'a res" where
  "context_res message r = (case r of Inl e \<Rightarrow> Inl (Context message e) | Inr a \<Rightarrow> Inr a)"

lemma context_res_simps [simp]:
  "context_res m (Inl e) = Inl (Context m e)" "context_res m (Inr a) = Inr a"
  by (simp_all add: context_res_def)

definition with_context :: "string \<Rightarrow> 'a res io \<Rightarrow> 'a res io" where
  "with_context message m = do { r \<leftarrow> m; State_Monad.return (context_res message r) }"

text \<open>\<open>m?\<close>: an early return of the error.\<close>

definition try_io :: "'a res io \<Rightarrow> ('a \<Rightarrow> 'b res io) \<Rightarrow> 'b res io" where
  "try_io m f = do {
     r \<leftarrow> m;
     case r of Inl e \<Rightarrow> State_Monad.return (Inl e) | Inr a \<Rightarrow> f a
   }"

lemma traced_with_context [traced_intro]:
  "traced E m (\<lambda>tr r. Q tr (context_res message r)) \<Longrightarrow> traced E (with_context message m) Q"
  unfolding with_context_def by (auto intro!: traced_bind elim!: traced_conseq intro: traced_return)

lemma ends_with_context [ends_intro]:
  "ends E h m (\<lambda>h' r. Q h' (context_res message r)) \<Longrightarrow> ends E h (with_context message m) Q"
  unfolding with_context_def by (auto intro!: ends_bind elim!: ends_conseq intro: ends_return)

lemma traced_try [traced_intro]:
  assumes "traced E m (\<lambda>tr r. case r of Inl e \<Rightarrow> Q tr (Inl e)
      | Inr a \<Rightarrow> traced E (f a) (\<lambda>tr' r'. Q (tr @ tr') r'))"
  shows "traced E (try_io m f) Q"
  unfolding try_io_def
  by (rule traced_bind, rule traced_conseq [OF assms])
    (auto intro!: traced_intro split: sum.splits)

lemma ends_try [ends_intro]:
  assumes "ends E h m (\<lambda>h' r. case r of Inl e \<Rightarrow> Q h' (Inl e) | Inr a \<Rightarrow> ends E h' (f a) Q)"
  shows "ends E h (try_io m f) Q"
  unfolding try_io_def
  by (rule ends_bind, rule ends_conseq [OF assms])
    (auto intro!: ends_intro split: sum.splits)

end
