(* ===== verification/Flash.thy ===== *)
theory Flash
  imports Runs
begin

text \<open>
  Non-volatile storage (NVS) as the hub relies on it. The driver is outside the program; \<open>contents\<close>
  reads off a history what each key may hold, and \<open>flash_faithful\<close> is the documented behaviour the
  statements about stored data assume: a successful read returns what the key may hold. After a
  successful write that is the value written; after a failed one it may be the old or the new
  value (NVS may have written the value although it reports an error), until a read has told which. Every call may fail at any time.
\<close>

section \<open>The storage and its contents\<close>

type_synonym location = "string \<times> string"
type_synonym contents = "location \<Rightarrow> string option set"

fun flash_effect :: "event \<Rightarrow> contents \<Rightarrow> contents" where
  "flash_effect (Flash (NvsSetStr ns key v r)) c =
     (case r of Inr _ \<Rightarrow> c((ns, key) := {Some v})
      | Inl _ \<Rightarrow> c((ns, key) := insert (Some v) (c (ns, key))))"
| "flash_effect (Flash (NvsRemove ns key r)) c =
     (case r of Inr _ \<Rightarrow> c((ns, key) := {None})
      | Inl _ \<Rightarrow> c((ns, key) := insert None (c (ns, key))))"
| "flash_effect (Flash (NvsStrLen ns key r)) c =
     (case r of Inr None \<Rightarrow> c((ns, key) := {None}) | _ \<Rightarrow> c)"
| "flash_effect (Flash (NvsGetStr ns key n r)) c =
     (case r of Inr v \<Rightarrow> c((ns, key) := {v}) | Inl _ \<Rightarrow> c)"
| "flash_effect _ c = c"

definition contents :: "contents \<Rightarrow> history \<Rightarrow> contents" where
  "contents c h = fold flash_effect h c"

lemma contents_simps [simp]:
  "contents c [] = c"
  "contents c (h @ tr) = fold flash_effect tr (contents c h)"
  by (simp_all add: contents_def)

text \<open>\<open>c\<close> is what the flash held before the history.\<close>

definition flash_faithful :: "env \<Rightarrow> contents \<Rightarrow> bool" where
  "flash_faithful E c \<longleftrightarrow> (\<forall>h ns key.
     (case nvs_str_len_at (flash_of E) h ns key of
        Inr len \<Rightarrow> len \<in> map_option (\<lambda>v. length v + 1) ` contents c h (ns, key)
      | Inl _ \<Rightarrow> True) \<and>
     (\<forall>n. case nvs_get_str_at (flash_of E) h ns key n of
        Inr v \<Rightarrow> v \<in> contents c h (ns, key)
      | Inl _ \<Rightarrow> True))"

lemma faithful_len_None:
  assumes "flash_faithful E c" "nvs_str_len_at (flash_of E) h ns key = Inr None"
  shows "None \<in> contents c h (ns, key)"
proof -
  from assms have "None \<in> map_option (\<lambda>v. length v + 1) ` contents c h (ns, key)"
    unfolding flash_faithful_def by (metis sum.simps(6))
  then show ?thesis by auto
qed

lemma faithful_get:
  assumes "flash_faithful E c" "nvs_get_str_at (flash_of E) h ns key n = Inr v"
  shows "v \<in> contents c h (ns, key)"
  using assms unfolding flash_faithful_def by (metis sum.simps(6))

section \<open>Calls\<close>

definition nvs_open :: "string \<Rightarrow> bool \<Rightarrow> string res io" where
  "nvs_open ns read_write = do {
     r \<leftarrow> ask (\<lambda>E h. nvs_open_at (flash_of E) h ns read_write) (\<lambda>r. Flash (NvsOpen ns read_write r));
     State_Monad.return (case r of Inl e \<Rightarrow> Inl e | Inr _ \<Rightarrow> Inr ns)
   }"

definition nvs_str_len :: "string \<Rightarrow> string \<Rightarrow> nat option res io" where
  "nvs_str_len handle key =
     ask (\<lambda>E h. nvs_str_len_at (flash_of E) h handle key) (\<lambda>r. Flash (NvsStrLen handle key r))"

definition nvs_get_str :: "string \<Rightarrow> string \<Rightarrow> nat \<Rightarrow> string option res io" where
  "nvs_get_str handle key len =
     ask (\<lambda>E h. nvs_get_str_at (flash_of E) h handle key len)
       (\<lambda>r. Flash (NvsGetStr handle key len r))"

definition nvs_set_str :: "string \<Rightarrow> string \<Rightarrow> string \<Rightarrow> unit res io" where
  "nvs_set_str handle key v =
     ask (\<lambda>E h. nvs_set_str_at (flash_of E) h handle key v) (\<lambda>r. Flash (NvsSetStr handle key v r))"

definition nvs_remove :: "string \<Rightarrow> string \<Rightarrow> bool res io" where
  "nvs_remove handle key =
     ask (\<lambda>E h. nvs_remove_at (flash_of E) h handle key) (\<lambda>r. Flash (NvsRemove handle key r))"

section \<open>Invariants of the contents\<close>

text \<open>An invariant of the contents at every moment; one that finding out more about a key keeps.\<close>

definition held :: "contents \<Rightarrow> (contents \<Rightarrow> bool) \<Rightarrow> history \<Rightarrow> bool" where
  "held c I h \<longleftrightarrow> kept (\<lambda>h. I (contents c h)) h"

definition stable :: "(contents \<Rightarrow> bool) \<Rightarrow> bool" where
  "stable I \<longleftrightarrow> (\<forall>c l v. I c \<longrightarrow> v \<in> c l \<longrightarrow> I (c(l := {v})))"

primrec holds :: "(contents \<Rightarrow> bool) \<Rightarrow> history \<Rightarrow> contents \<Rightarrow> bool" where
  "holds I [] c = True"
| "holds I (e # tr) c = (I (flash_effect e c) \<and> holds I tr (flash_effect e c))"

lemma held_append: "held c I (h @ tr) \<longleftrightarrow> held c I h \<and> holds I tr (contents c h)"
proof (induction tr arbitrary: h)
  case (Cons e tr)
  from Cons.IH [of "h @ [e]"] show ?case by (simp add: held_def kept_snoc)
qed simp

lemma held_now: "held c I h \<Longrightarrow> I (contents c h)"
  unfolding held_def by (rule kept_now)

lemma stable_single: "stable I \<Longrightarrow> I c \<Longrightarrow> v \<in> c l \<Longrightarrow> I (c(l := {v}))"
  unfolding stable_def by blast

lemma always [simp]: "stable (\<lambda>_. True)" "held c (\<lambda>_. True) h"
  by (simp_all add: stable_def held_def kept_def)

lemma ends_nvs_open:
  assumes "held c I h"
  shows "ends E h (nvs_open ns rw) (\<lambda>h' r. held c I h' \<and> contents c h' = contents c h \<and>
     (case r of Inr handle \<Rightarrow> handle = ns | Inl _ \<Rightarrow> True))"
  unfolding nvs_open_def
  by (intro ends_intro) (use held_now [OF assms] assms in \<open>auto simp: held_append split: sum.splits\<close>)

lemma ends_nvs_set_str:
  "ends E h (nvs_set_str ns key v) (\<lambda>h' r.
     contents c h' = (contents c h)((ns, key) := (case r of Inr _ \<Rightarrow> {Some v}
       | Inl _ \<Rightarrow> insert (Some v) (contents c h (ns, key)))) \<and>
     (held c I h \<longrightarrow> I (contents c h') \<longrightarrow> held c I h'))"
  unfolding nvs_set_str_def
  by (intro ends_intro) (auto simp: held_append split: sum.splits)

text \<open>The same for calls whose errors are passed on by \<open>?\<close>.\<close>

lemma ends_try_open:
  assumes "held c I h"
    and "\<And>h' e. held c I h' \<Longrightarrow> contents c h' = contents c h \<Longrightarrow> Q h' (Inl e)"
    and "\<And>h'. held c I h' \<Longrightarrow> contents c h' = contents c h \<Longrightarrow> ends E h' (f ns) Q"
  shows "ends E h (try_io (with_context m (nvs_open ns rw)) f) Q"
  by (intro ends_try ends_with_context ends_conseq [OF ends_nvs_open [OF assms(1)]])
    (auto intro: assms(2,3) split: sum.splits)

lemma ends_try_set:
  assumes "held c I h"
    and "I ((contents c h)((ns, key) := {Some v}))"
    and "I ((contents c h)((ns, key) := insert (Some v) (contents c h (ns, key))))"
    and "\<And>h' e. held c I h' \<Longrightarrow> contents c h' =
      (contents c h)((ns, key) := insert (Some v) (contents c h (ns, key))) \<Longrightarrow> Q h' (Inl e)"
    and "\<And>h'. held c I h' \<Longrightarrow> contents c h' = (contents c h)((ns, key) := {Some v}) \<Longrightarrow> ends E h' (f ()) Q"
  shows "ends E h (try_io (with_context m (nvs_set_str ns key v)) f) Q"
  by (intro ends_try ends_with_context ends_conseq [OF ends_nvs_set_str [where c = c and I = I]])
    (use assms in \<open>auto split: sum.splits\<close>)

text \<open>Programs that make no call into the flash.\<close>

fun is_flash :: "event \<Rightarrow> bool" where
  "is_flash (Flash _) = True"
| "is_flash _ = False"

definition no_flash :: "history \<Rightarrow> bool" where
  "no_flash tr \<longleftrightarrow> list_all (\<lambda>e. \<not> is_flash e) tr"

lemma no_flash_simps [simp]:
  "no_flash []" "no_flash (e # tr) \<longleftrightarrow> \<not> is_flash e \<and> no_flash tr"
  "no_flash (a @ b) \<longleftrightarrow> no_flash a \<and> no_flash b"
  by (simp_all add: no_flash_def)

interpretation no_flash: trace_monoid no_flash
  by unfold_locales simp_all

lemma no_flash_effect: "\<not> is_flash e \<Longrightarrow> flash_effect e c = c"
  by (cases e) simp_all

lemma no_flash_contents: "no_flash tr \<Longrightarrow> fold flash_effect tr c = c"
  by (induction tr) (simp_all add: no_flash_effect)

lemma no_flash_held:
  assumes "no_flash tr" "held c I h"
  shows "held c I (h @ tr)"
proof -
  have "I d \<Longrightarrow> holds I tr d" for d
    using assms(1) by (induction tr) (simp_all add: no_flash_effect)
  with assms(2) held_now [OF assms(2)] show ?thesis by (simp add: held_append)
qed

section \<open>Reading a string\<close>

text \<open>
  The interface through which both modules of the hub read strings: what was read is what the key
  may hold, and from then on does hold; and reading fails only when the driver does.
\<close>

definition flash_reliable :: "env \<Rightarrow> bool" where
  "flash_reliable E \<longleftrightarrow> (\<forall>h ns key n rw. nvs_open_at (flash_of E) h ns rw = Inr () \<and>
     (\<exists>len. nvs_str_len_at (flash_of E) h ns key = Inr len) \<and>
     (\<exists>v. nvs_get_str_at (flash_of E) h ns key n = Inr v))"

lemma flash_reliable_open: "flash_reliable E \<Longrightarrow> nvs_open_at (flash_of E) h ns rw = Inr ()"
  unfolding flash_reliable_def by blast

locale string_reader =
  fixes read :: "string \<Rightarrow> string \<Rightarrow> string option res io"
  assumes finds: "flash_faithful E c \<Longrightarrow> stable I \<Longrightarrow> held c I h \<Longrightarrow>
      ends E h (read ns key) (\<lambda>h' r. held c I h' \<and>
        (case r of
           Inr v \<Rightarrow> v \<in> contents c h (ns, key) \<and> contents c h' = (contents c h)((ns, key) := {v})
         | Inl _ \<Rightarrow> contents c h' = contents c h))"
    and works: "flash_reliable E \<Longrightarrow> ends E h (read ns key) (\<lambda>h' r. \<exists>v. r = Inr v)"
begin

lemma try_read:
  assumes "flash_faithful E c" "stable I" "held c I h"
    and "\<And>h' e. held c I h' \<Longrightarrow> contents c h' = contents c h \<Longrightarrow> Q h' (Inl e)"
    and "\<And>h' v. held c I h' \<Longrightarrow> v \<in> contents c h (ns, key) \<Longrightarrow>
      contents c h' = (contents c h)((ns, key) := {v}) \<Longrightarrow> ends E h' (f v) Q"
  shows "ends E h (try_io (read ns key) f) Q"
  by (intro ends_try ends_conseq [OF finds [OF assms(1-3)]])
    (auto intro: assms(4,5) split: sum.splits)

text \<open>A key with one possible value is read as that value.\<close>

lemma finds_known:
  assumes "flash_faithful E c" "stable I" "held c I h" "contents c h (ns, key) = {v}"
  shows "ends E h (read ns key) (\<lambda>h' r. held c I h' \<and> contents c h' = contents c h \<and>
     (case r of Inr u \<Rightarrow> u = v | Inl _ \<Rightarrow> True))"
proof (rule ends_conseq [OF finds [OF assms(1-3)]])
  have same: "(contents c h)((ns, key) := {v}) = contents c h"
    using assms(4) by (metis fun_upd_triv)
  then show "held c I h' \<and> contents c h' = contents c h \<and> (case r of Inr u \<Rightarrow> u = v | Inl _ \<Rightarrow> True)"
    if "held c I h' \<and> (case r of
           Inr v \<Rightarrow> v \<in> contents c h (ns, key) \<and> contents c h' = (contents c h)((ns, key) := {v})
         | Inl _ \<Rightarrow> contents c h' = contents c h)" for h' r
    using that assms(4) by (auto split: sum.splits)
qed

lemma reads_known:
  assumes "flash_faithful E c" "flash_reliable E" "contents c h (ns, key) = {v}"
  shows "ends E h (read ns key) (\<lambda>h' r. contents c h' = contents c h \<and> r = Inr v)"
proof -
  from ends_conj [OF finds_known [OF assms(1) always assms(3)] works [OF assms(2)]]
  show ?thesis by (rule ends_conseq) auto
qed

end

text \<open>The reading loop both modules have: the length first, then the text into a buffer of it.\<close>

lemma read_by_length:
  assumes read: "\<And>ns key. read ns key = do {
      len \<leftarrow> nvs_str_len ns key;
      case len of
        Inl e \<Rightarrow> State_Monad.return (Inl (Context (m ns key) e))
      | Inr None \<Rightarrow> State_Monad.return (Inr None)
      | Inr (Some len) \<Rightarrow> do {
          v \<leftarrow> nvs_get_str ns key len;
          State_Monad.return (context_res (m' ns key) v)
        } }"
  shows "string_reader read"
proof
  fix E c I h ns key
  assume f: "flash_faithful E c" and I: "stable I" "held c I h"
  let ?len = "nvs_str_len_at (flash_of E) h ns key"
  have none: "I ((contents c h)((ns, key) := {None}))" if "?len = Inr None"
    using stable_single [OF I(1) held_now [OF I(2)]] faithful_len_None [OF f that] by blast
  have some: "v \<in> contents c h (ns, key) \<and> I ((contents c h)((ns, key) := {v}))"
    if len: "?len = Inr (Some n)"
      and get: "nvs_get_str_at (flash_of E) (h @ [Flash (NvsStrLen ns key ?len)]) ns key n = Inr v" for n v
  proof -
    have "v \<in> contents c h (ns, key)" using faithful_get [OF f get] len by simp
    with stable_single [OF I(1) held_now [OF I(2)] this] show ?thesis by blast
  qed
  show "ends E h (read ns key) (\<lambda>h' r. held c I h' \<and>
        (case r of
           Inr v \<Rightarrow> v \<in> contents c h (ns, key) \<and> contents c h' = (contents c h)((ns, key) := {v})
         | Inl _ \<Rightarrow> contents c h' = contents c h))"
    unfolding read nvs_str_len_def nvs_get_str_def
    by (intro ends_intro)
      (use I(2) held_now [OF I(2)] none some faithful_len_None [OF f] in
        \<open>auto simp: held_append context_res_def split: sum.splits option.splits\<close>)
next
  fix E h ns key
  assume "flash_reliable E"
  then show "ends E h (read ns key) (\<lambda>h' r. \<exists>v. r = Inr v)"
    unfolding read nvs_str_len_def nvs_get_str_def flash_reliable_def
    by (intro ends_intro) (metis sum.distinct(1) context_res_simps(2) sum.inject(2))+
qed

section \<open>A working flash\<close>

text \<open>Used to evaluate handlers: every call succeeds and each key holds one value, at first that of \<open>fl\<close>.\<close>

fun flash_value :: "event \<Rightarrow> (location \<Rightarrow> string option) \<Rightarrow> location \<Rightarrow> string option" where
  "flash_value (Flash (NvsSetStr ns key v r)) fl =
     (case r of Inr _ \<Rightarrow> fl((ns, key) := Some v) | Inl _ \<Rightarrow> fl)"
| "flash_value (Flash (NvsRemove ns key r)) fl =
     (case r of Inr _ \<Rightarrow> fl((ns, key) := None) | Inl _ \<Rightarrow> fl)"
| "flash_value (Flash (NvsStrLen ns key r)) fl =
     (case r of Inr None \<Rightarrow> fl((ns, key) := None) | _ \<Rightarrow> fl)"
| "flash_value (Flash (NvsGetStr ns key n r)) fl =
     (case r of Inr v \<Rightarrow> fl((ns, key) := v) | Inl _ \<Rightarrow> fl)"
| "flash_value _ fl = fl"

definition working_flash :: "(location \<Rightarrow> string option) \<Rightarrow> flash_env" where
  "working_flash fl = \<lparr>nvs_open_at = \<lambda>_ _ _. Inr (),
     nvs_str_len_at = \<lambda>h ns key. Inr (map_option (\<lambda>v. length v + 1) (fold flash_value h fl (ns, key))),
     nvs_get_str_at = \<lambda>h ns key n. Inr (fold flash_value h fl (ns, key)),
     nvs_set_str_at = \<lambda>_ _ _ _. Inr (), nvs_remove_at = \<lambda>_ _ _. Inr True\<rparr>"

definition working_env :: "(location \<Rightarrow> string option) \<Rightarrow> env" where
  "working_env fl = calm_env\<lparr>flash_of := working_flash fl\<rparr>"

definition holding :: "(location \<Rightarrow> string option) \<Rightarrow> contents" where
  "holding fl = (\<lambda>l. {fl l})"

lemma flash_value_effect:
  "(\<And>l. fl l \<in> c l) \<Longrightarrow> flash_value e fl l \<in> flash_effect e c l"
  by (cases "(e, c)" rule: flash_effect.cases) (auto split: sum.splits option.splits)

lemma flash_value_contents: "fold flash_value h fl l \<in> contents (holding fl) h l"
proof -
  have "(\<And>l. fl l \<in> c l) \<Longrightarrow> fold flash_value h fl l \<in> fold flash_effect h c l" for c
  proof (induction h arbitrary: fl c)
    case (Cons e h)
    then show ?case by (simp add: flash_value_effect)
  qed simp
  then show ?thesis by (simp add: contents_def holding_def)
qed

lemma working_faithful: "flash_faithful (working_env fl) (holding fl)"
  unfolding flash_faithful_def working_env_def working_flash_def
  by (simp add: flash_value_contents)

lemma working_reliable: "flash_reliable (working_env fl)"
  unfolding flash_reliable_def working_env_def working_flash_def by simp

end
