(* ===== verification/Persist.thy ===== *)
theory Persist
  imports Flash
begin

text \<open>
  The identity and the token of the hub in the flash (\<open>src/persist.rs\<close>, NVS namespace \<open>hub\<close>). The pair of
  device id and secret is fixed by the build and written key by key; the lemmas show that this is
  safe against losing power at any moment: a secret is never found beside the id of another build.
  Log output is left out, and in the messages of errors the quotes around names.
\<close>

section \<open>Identity and token\<close>

definition NAMESPACE :: string where "NAMESPACE = ''hub''"
definition KEY_DEVICE_ID :: string where "KEY_DEVICE_ID = ''device_id''"
definition KEY_HUB_SECRET :: string where "KEY_HUB_SECRET = ''hub_secret''"
definition KEY_JWT :: string where "KEY_JWT = ''jwt''"

text \<open>What the build fixes: \<open>HUB_DEVICE_ID\<close>, \<open>HUB_SECRET\<close> and, for development, \<open>HUB_TOKEN\<close>.\<close>

record build_env =
  BUILD_DEVICE_ID :: string
  BUILD_HUB_SECRET :: string
  HUB_TOKEN :: "string option"

definition call_of :: "string \<Rightarrow> string \<Rightarrow> string" where
  "call_of name key = ''nvs '' @ name @ ''('' @ key @ '')''"

definition read_str :: "string \<Rightarrow> string \<Rightarrow> string option res io" where
  "read_str handle key = do {
     len \<leftarrow> nvs_str_len handle key;
     case len of
       Inl e \<Rightarrow> State_Monad.return (Inl (Context (call_of ''str_len'' key) e))
     | Inr None \<Rightarrow> State_Monad.return (Inr None)
     | Inr (Some len) \<Rightarrow> do {
         v \<leftarrow> nvs_get_str handle key len;
         State_Monad.return (context_res (call_of ''get_str'' key) v)
       }
   }"

definition load_or_generate_creds :: "build_env \<Rightarrow> (string \<times> string) res io" where
  "load_or_generate_creds build =
     try_io (with_context ''open NVS namespace for read/write'' (nvs_open NAMESPACE True)) (\<lambda>read_handle.
     try_io (read_str read_handle KEY_DEVICE_ID) (\<lambda>existing_id.
     try_io (read_str read_handle KEY_HUB_SECRET) (\<lambda>existing_secret.
     case (existing_id, existing_secret) of
       (Some device_id, Some secret) \<Rightarrow> State_Monad.return (Inr (device_id, secret))
     | _ \<Rightarrow>
         let device_id = BUILD_DEVICE_ID build; hub_secret = BUILD_HUB_SECRET build in
         try_io (with_context ''write device_id to NVS'' (nvs_set_str read_handle KEY_DEVICE_ID device_id)) (\<lambda>_.
         try_io (with_context ''write hub_secret to NVS'' (nvs_set_str read_handle KEY_HUB_SECRET hub_secret)) (\<lambda>_. State_Monad.return (Inr (device_id, hub_secret)))))))"

definition read_hub_jwt :: "string option res io" where
  "read_hub_jwt =
     try_io (with_context ''open NVS namespace read-only'' (nvs_open NAMESPACE False)) (\<lambda>handle. read_str handle KEY_JWT)"

definition write_hub_jwt :: "string \<Rightarrow> unit res io" where
  "write_hub_jwt jwt =
     try_io (with_context ''open NVS namespace for jwt write'' (nvs_open NAMESPACE True)) (\<lambda>handle.
     try_io (with_context ''write jwt to NVS'' (nvs_set_str handle KEY_JWT jwt)) (\<lambda>_. State_Monad.return (Inr ())))"

definition seed_jwt_from_env :: "string \<Rightarrow> unit res io" where
  "seed_jwt_from_env token =
     try_io read_hub_jwt (\<lambda>existing.
       if existing = Some token then State_Monad.return (Inr ())
       else try_io (write_hub_jwt token) (\<lambda>_. State_Monad.return (Inr ())))"

interpretation persist: string_reader read_str
  by (rule read_by_length [where m = "\<lambda>_. call_of ''str_len''" and m' = "\<lambda>_. call_of ''get_str''"])
    (rule read_str_def)


section \<open>The identity is never mixed up\<close>

abbreviation device_id_at :: location where "device_id_at \<equiv> (NAMESPACE, KEY_DEVICE_ID)"
abbreviation hub_secret_at :: location where "hub_secret_at \<equiv> (NAMESPACE, KEY_HUB_SECRET)"
abbreviation jwt_at :: location where "jwt_at \<equiv> (NAMESPACE, KEY_JWT)"

lemmas persist_keys = NAMESPACE_def KEY_DEVICE_ID_def KEY_HUB_SECRET_def KEY_JWT_def

lemma persist_locations [simp]:
  "KEY_DEVICE_ID \<noteq> KEY_HUB_SECRET" "KEY_HUB_SECRET \<noteq> KEY_DEVICE_ID"
  "KEY_JWT \<noteq> KEY_DEVICE_ID" "KEY_JWT \<noteq> KEY_HUB_SECRET"
  "KEY_DEVICE_ID \<noteq> KEY_JWT" "KEY_HUB_SECRET \<noteq> KEY_JWT"
  by (simp_all add: persist_keys)

text \<open>
  The pairs of identity and secret that builds of the firmware have fixed; a secret is only ever in
  the flash beside the device id it was issued with.
\<close>

definition issued :: "(string \<times> string) set \<Rightarrow> contents \<Rightarrow> bool" where
  "issued pairs c \<longleftrightarrow> (\<forall>s. Some s \<in> c hub_secret_at \<longrightarrow>
     (\<exists>d. (d, s) \<in> pairs \<and> c device_id_at = {Some d}))"

definition identity :: "contents \<Rightarrow> string \<times> string \<Rightarrow> bool" where
  "identity c p \<longleftrightarrow> c device_id_at = {Some (fst p)} \<and> c hub_secret_at = {Some (snd p)}"

lemma stable_issued: "stable (issued pairs)"
  unfolding stable_def issued_def by (auto split: if_splits)

lemma stable_identity: "stable (\<lambda>c. identity c p)"
  unfolding stable_def identity_def by auto

lemma issued_no_secret: "c hub_secret_at = {None} \<Longrightarrow> issued pairs (c(device_id_at := ds))"
  by (simp add: issued_def)

lemma issued_beside:
  assumes "(d, s) \<in> pairs" "c device_id_at = {Some d}" "ss \<subseteq> {None, Some s}"
  shows "issued pairs (c(hub_secret_at := ss))"
  using assms by (auto simp: issued_def)

lemma ends_seed:
  assumes held: "held c (issued pairs) h" and pair: "(BUILD_DEVICE_ID build, BUILD_HUB_SECRET build) \<in> pairs"
    and none: "contents c h hub_secret_at = {None}"
  shows "ends E h (try_io (with_context m (nvs_set_str NAMESPACE KEY_DEVICE_ID (BUILD_DEVICE_ID build))) (\<lambda>_.
      try_io (with_context m' (nvs_set_str NAMESPACE KEY_HUB_SECRET (BUILD_HUB_SECRET build))) (\<lambda>_.
      State_Monad.return (Inr (BUILD_DEVICE_ID build, BUILD_HUB_SECRET build)))))
    (\<lambda>h' r. held c (issued pairs) h' \<and>
      (case r of Inr p \<Rightarrow> p \<in> pairs \<and> identity (contents c h') p | Inl _ \<Rightarrow> True))"
proof (rule ends_try_set [OF held])
  fix h' assume h': "held c (issued pairs) h'"
    and c': "contents c h' = (contents c h)(device_id_at := {Some (BUILD_DEVICE_ID build)})"
  show "ends E h' (try_io (with_context m' (nvs_set_str NAMESPACE KEY_HUB_SECRET (BUILD_HUB_SECRET build))) (\<lambda>_.
      State_Monad.return (Inr (BUILD_DEVICE_ID build, BUILD_HUB_SECRET build))))
    (\<lambda>h' r. held c (issued pairs) h' \<and>
      (case r of Inr p \<Rightarrow> p \<in> pairs \<and> identity (contents c h') p | Inl _ \<Rightarrow> True))"
  proof (rule ends_try_set [OF h'])
    show "issued pairs ((contents c h')(hub_secret_at := {Some (BUILD_HUB_SECRET build)}))"
      by (rule issued_beside [OF pair]) (simp_all add: c')
    show "issued pairs ((contents c h')(hub_secret_at :=
        insert (Some (BUILD_HUB_SECRET build)) (contents c h' hub_secret_at)))"
      by (rule issued_beside [OF pair]) (simp_all add: c' none)
  qed (simp_all add: c' identity_def pair ends_return)
qed (use none in \<open>auto intro: issued_no_secret\<close>)

lemma ends_load_or_generate_creds:
  assumes faithful: "flash_faithful E c"
    and pair: "(BUILD_DEVICE_ID build, BUILD_HUB_SECRET build) \<in> pairs"
    and held: "held c (issued pairs) h"
  shows "ends E h (load_or_generate_creds build) (\<lambda>h' r. held c (issued pairs) h' \<and>
    (case r of Inr p \<Rightarrow> p \<in> pairs \<and> identity (contents c h') p | Inl _ \<Rightarrow> True))"
  unfolding load_or_generate_creds_def Let_def
proof (rule ends_try_open [OF held], simp, rule persist.try_read [OF faithful stable_issued], assumption, simp,
    rule persist.try_read [OF faithful stable_issued], assumption, simp)
  fix h1 h2 i h3 s
  assume c1: "contents c h1 = contents c h" and h2: "held c (issued pairs) h2"
    and c2: "contents c h2 = (contents c h1)(device_id_at := {i})"
    and h3: "held c (issued pairs) h3" and s: "s \<in> contents c h2 hub_secret_at"
    and c3: "contents c h3 = (contents c h2)(hub_secret_at := {s})"
  show "ends E h3 (case (i, s) of (Some d, Some s) \<Rightarrow> State_Monad.return (Inr (d, s))
    | _ \<Rightarrow> try_io (with_context ''write device_id to NVS'' (nvs_set_str NAMESPACE KEY_DEVICE_ID (BUILD_DEVICE_ID build))) (\<lambda>_.
         try_io (with_context ''write hub_secret to NVS'' (nvs_set_str NAMESPACE KEY_HUB_SECRET (BUILD_HUB_SECRET build)))
           (\<lambda>_. State_Monad.return (Inr (BUILD_DEVICE_ID build, BUILD_HUB_SECRET build)))))
    (\<lambda>h' r. held c (issued pairs) h' \<and>
      (case r of Inr p \<Rightarrow> p \<in> pairs \<and> identity (contents c h') p | Inl _ \<Rightarrow> True))"
  proof (cases s)
    case None
    with c3 h3 pair show ?thesis by (cases i) (simp_all add: ends_seed)
  next
    case (Some t)
    with held_now [OF h3] c2 c3 obtain d where "(d, t) \<in> pairs" "i = Some d"
      by (auto simp: issued_def)
    with Some h3 c2 c3 show ?thesis by (auto intro!: ends_return simp: identity_def)
  qed
qed


text \<open>Once both are in the flash, no build changes them.\<close>

lemma ends_load_known:
  assumes "flash_faithful E c" "identity (contents c h) p"
  shows "ends E h (load_or_generate_creds build) (\<lambda>h' r. contents c h' = contents c h \<and>
    (case r of Inr q \<Rightarrow> q = p | Inl _ \<Rightarrow> True))"
proof -
  have upd: "(contents c h)(l := {v}) = contents c h" if "contents c h l = {v}" for l v
    using that by (metis fun_upd_triv)
  from assms(2) show ?thesis
    unfolding load_or_generate_creds_def Let_def identity_def
    by (intro ends_try_open [OF always(2)] persist.try_read [OF assms(1) always])
      (auto intro!: persist.try_read [OF assms(1) always] ends_return simp: upd)
qed

section \<open>The token\<close>

text \<open>An invariant that does not look at one location.\<close>

definition ignores :: "location \<Rightarrow> (contents \<Rightarrow> bool) \<Rightarrow> bool" where
  "ignores l I \<longleftrightarrow> (\<forall>c vs. I (c(l := vs)) = I c)"

lemma ignores_upd: "ignores l I \<Longrightarrow> I (c(l := vs)) = I c"
  by (simp add: ignores_def)

lemma issued_ignores [simp]: "ignores jwt_at (issued pairs)"
  by (simp add: ignores_def issued_def)

lemma ends_read_hub_jwt:
  assumes "flash_faithful E c" "stable I" "held c I h"
  shows "ends E h read_hub_jwt (\<lambda>h' r. held c I h' \<and>
    (case r of Inr v \<Rightarrow> v \<in> contents c h jwt_at \<and> contents c h' = (contents c h)(jwt_at := {v})
     | Inl _ \<Rightarrow> contents c h' = contents c h))"
  unfolding read_hub_jwt_def
  by (rule ends_try_open [OF assms(3)], simp, rule ends_conseq, rule persist.finds [OF assms(1,2)])
    (auto split: sum.splits)

lemma ends_write_hub_jwt:
  assumes "ignores jwt_at I" "held c I h"
  shows "ends E h (write_hub_jwt token) (\<lambda>h' r. held c I h' \<and>
    (case r of Inr _ \<Rightarrow> contents c h' = (contents c h)(jwt_at := {Some token})
     | Inl _ \<Rightarrow> contents c h' = contents c h \<or>
         contents c h' = (contents c h)(jwt_at := insert (Some token) (contents c h jwt_at))))"
  unfolding write_hub_jwt_def
  by (rule ends_try_open [OF assms(2)], simp, rule ends_try_set [where I = I and c = c])
    (auto intro!: ends_return dest: held_now simp: ignores_upd [OF assms(1)])

lemma ends_seed_jwt_from_env:
  assumes "flash_faithful E c" "stable I" "ignores jwt_at I" "held c I h"
  shows "ends E h (seed_jwt_from_env token) (\<lambda>h' r. held c I h' \<and>
    (case r of Inr _ \<Rightarrow> contents c h' = (contents c h)(jwt_at := {Some token}) | Inl _ \<Rightarrow> True))"
  unfolding seed_jwt_from_env_def
  by (rule ends_try, rule ends_conseq [OF ends_read_hub_jwt [OF assms(1,2,4)]])
    (auto intro!: ends_return ends_try ends_conseq [OF ends_write_hub_jwt [OF assms(3)]] split: sum.splits)

lemma ends_load_identity:
  assumes "flash_faithful E c" and "held c (issued pairs) h"
    and "(BUILD_DEVICE_ID build, BUILD_HUB_SECRET build) \<in> pairs"
  shows "ends E h (load_or_generate_creds build) (\<lambda>h' r. held c (issued pairs) h' \<and>
    (case r of
       Inr p \<Rightarrow> p \<in> pairs \<and> identity (contents c h') p \<and>
         (\<forall>q. identity (contents c h) q \<longrightarrow> p = q \<and> contents c h' = contents c h)
     | Inl _ \<Rightarrow> \<forall>q. identity (contents c h) q \<longrightarrow> contents c h' = contents c h))"
proof (cases "\<exists>q. identity (contents c h) q")
  case True
  then obtain q where q: "identity (contents c h) q" ..
  then have "q = q'" if "identity (contents c h) q'" for q'
    using that by (simp add: identity_def prod_eq_iff)
  with ends_conj [OF ends_load_or_generate_creds [OF assms(1,3,2)] ends_load_known [OF assms(1) q, of build]]
  show ?thesis by (auto elim!: ends_conseq split: sum.splits)
next
  case False
  with ends_load_or_generate_creds [OF assms(1,3,2)] show ?thesis
    by (auto elim!: ends_conseq split: sum.splits)
qed

section \<open>Stored identity: the properties\<close>

text \<open>
  C5: losing power never mixes up identities. Whatever builds of the firmware ran before and
  wherever they were interrupted, as long as a secret was only ever in the flash beside its own
  device id, this stays so at every moment of a boot, and the boot gets a pair that some build
  issued, now held by the flash. A pair held by the flash is returned whatever the build says, and is
  not changed.
\<close>

theorem identity_never_mixed:
  assumes "flash_faithful E c" and "held c (issued pairs) h"
    and "(BUILD_DEVICE_ID build, BUILD_HUB_SECRET build) \<in> pairs"
  shows "ends E h (load_or_generate_creds build) (\<lambda>h' r. held c (issued pairs) h' \<and>
    (case r of
       Inr p \<Rightarrow> p \<in> pairs \<and> identity (contents c h') p \<and>
         (\<forall>q. identity (contents c h) q \<longrightarrow> p = q \<and> contents c h' = contents c h)
     | Inl _ \<Rightarrow> \<forall>q. identity (contents c h) q \<longrightarrow> contents c h' = contents c h))"
  using assms by (rule ends_load_identity)

definition sample_build :: build_env where
  "sample_build = \<lparr>BUILD_DEVICE_ID = ''dev'', BUILD_HUB_SECRET = ''sec'', HUB_TOKEN = None\<rparr>"

theorem identity_never_mixed_witness:
  "ends (working_env Map.empty) [] (load_or_generate_creds sample_build) (\<lambda>h' r. case r of
     Inr p \<Rightarrow> p = (''dev'', ''sec'') \<and> identity (contents (holding Map.empty) h') p | Inl _ \<Rightarrow> True)"
proof -
  have "held (holding Map.empty) (issued {(''dev'', ''sec'')}) []"
    by (simp add: held_def issued_def holding_def)
  from identity_never_mixed [OF working_faithful this, of sample_build] show ?thesis
    by (auto simp: sample_build_def elim!: ends_conseq split: sum.splits)
qed

end
