(* ===== verification/Wifi_Store.thy ===== *)
theory Wifi_Store
  imports Persist
begin

text \<open>
  The Wi-Fi credentials in the flash (\<open>src/nvs_store.rs\<close>, NVS namespace \<open>harvesthub\<close>). Reading a
  string is the second interpretation of \<open>string_reader\<close>. The last theorem shows what the two writes
  of \<open>save\<close> can leave behind.
\<close>

definition NVS_NAMESPACE :: string where "NVS_NAMESPACE = ''harvesthub''"
definition KEY_SSID :: string where "KEY_SSID = ''wifi_ssid''"
definition KEY_PASS :: string where "KEY_PASS = ''wifi_pass''"

record wifi_credentials =
  wc_ssid :: string
  wc_password :: string

definition open_nvs :: "string res io" where
  "open_nvs = nvs_open NVS_NAMESPACE True"

definition nvs_store_read_str :: "string \<Rightarrow> string \<Rightarrow> string option res io" where
  "nvs_store_read_str handle key = do {
     len \<leftarrow> nvs_str_len handle key;
     case len of
       Inl e \<Rightarrow> State_Monad.return (Inl (Context (call_of ''str_len'' key) e))
     | Inr None \<Rightarrow> State_Monad.return (Inr None)
     | Inr (Some len) \<Rightarrow> do {
         v \<leftarrow> nvs_get_str handle key len;
         State_Monad.return (context_res (call_of ''get_str'' key) v)
       }
   }"

definition nvs_load :: "wifi_credentials option io" where
  "nvs_load = do {
     nvs \<leftarrow> open_nvs;
     case nvs of
       Inl e \<Rightarrow> State_Monad.return None
     | Inr handle \<Rightarrow> do {
         ssid \<leftarrow> nvs_store_read_str handle KEY_SSID;
         case ssid of
           Inl e \<Rightarrow> State_Monad.return None
         | Inr None \<Rightarrow> State_Monad.return None
         | Inr (Some ssid) \<Rightarrow> do {
             pass \<leftarrow> nvs_store_read_str handle KEY_PASS;
             case pass of
               Inl e \<Rightarrow> State_Monad.return None
             | Inr None \<Rightarrow> State_Monad.return None
             | Inr (Some pass) \<Rightarrow>
                 if ssid = [] then State_Monad.return None
                 else State_Monad.return (Some \<lparr>wc_ssid = ssid, wc_password = pass\<rparr>)
           }
       }
   }"

definition nvs_save :: "wifi_credentials \<Rightarrow> unit res io" where
  "nvs_save creds =
     try_io open_nvs (\<lambda>nvs.
     try_io (nvs_set_str nvs KEY_SSID (wc_ssid creds)) (\<lambda>_.
     try_io (nvs_set_str nvs KEY_PASS (wc_password creds)) (\<lambda>_.
     State_Monad.return (Inr ()))))"

definition nvs_clear :: "unit res io" where
  "nvs_clear =
     try_io open_nvs (\<lambda>nvs. do {
       _ \<leftarrow> nvs_remove nvs KEY_SSID;
       _ \<leftarrow> nvs_remove nvs KEY_PASS;
       State_Monad.return (Inr ())
     })"

interpretation nvs_store: string_reader nvs_store_read_str
  by (rule read_by_length [where m = "\<lambda>_. call_of ''str_len''" and m' = "\<lambda>_. call_of ''get_str''"])
    (rule nvs_store_read_str_def)

text \<open>The two modules read alike.\<close>

lemma nvs_store_read_str_eq: "nvs_store_read_str = read_str"
  by (intro ext) (simp add: nvs_store_read_str_def read_str_def)

section \<open>What is stored\<close>

abbreviation ssid_at :: location where "ssid_at \<equiv> (NVS_NAMESPACE, KEY_SSID)"
abbreviation password_at :: location where "password_at \<equiv> (NVS_NAMESPACE, KEY_PASS)"

lemma nvs_store_locations [simp]:
  "KEY_SSID \<noteq> KEY_PASS" "KEY_PASS \<noteq> KEY_SSID" "NVS_NAMESPACE \<noteq> NAMESPACE" "NAMESPACE \<noteq> NVS_NAMESPACE"
  by (simp_all add: KEY_SSID_def KEY_PASS_def NVS_NAMESPACE_def NAMESPACE_def)

text \<open>What loading finds is what the two keys hold; a working driver finds it.\<close>

lemma ends_open_nvs:
  "ends E h open_nvs (\<lambda>h' r. contents c h' = contents c h \<and>
    (case r of Inr ns \<Rightarrow> ns = NVS_NAMESPACE | Inl _ \<Rightarrow> \<not> flash_reliable E))"
  unfolding open_nvs_def nvs_open_def
  using flash_reliable_open [of E h NVS_NAMESPACE True]
  by (intro ends_intro) (auto split: sum.splits)

lemma ends_nvs_load:
  assumes "flash_faithful E c"
    and "contents c h ssid_at = {s}" "contents c h password_at = {p}"
  shows "ends E h nvs_load (\<lambda>h' r. contents c h' = contents c h \<and>
    (r = None \<or> (\<exists>ssid pw. s = Some ssid \<and> p = Some pw \<and> ssid \<noteq> [] \<and>
       r = Some \<lparr>wc_ssid = ssid, wc_password = pw\<rparr>)) \<and>
    (flash_reliable E \<longrightarrow> r = None \<longrightarrow> s = None \<or> p = None \<or> s = Some []))"
proof -
  have read: "ends E h' (nvs_store_read_str NVS_NAMESPACE key) (\<lambda>h'' r. contents c h'' = contents c h \<and>
      (case r of Inr u \<Rightarrow> u = v | Inl _ \<Rightarrow> \<not> flash_reliable E))"
    if "contents c h (NVS_NAMESPACE, key) = {v}" "contents c h' = contents c h" for key v h'
  proof (cases "flash_reliable E")
    case True
    with that nvs_store.reads_known [OF assms(1) True, of h' NVS_NAMESPACE key v] show ?thesis
      by (auto elim!: ends_conseq)
  next
    case False
    with that nvs_store.finds_known [OF assms(1) always, of h' NVS_NAMESPACE key v] show ?thesis
      by (auto elim!: ends_conseq split: sum.splits)
  qed
  show ?thesis
    unfolding nvs_load_def
    by (rule ends_bind, rule ends_conseq [OF ends_open_nvs [where c = c]])
      (use assms(2,3) in \<open>auto intro!: ends_intro ends_conseq [OF read] split: sum.splits option.splits\<close>)
qed

lemma nvs_load_ends: "ends E h nvs_load (\<lambda>_ _. True)"
  by (rule ends_traced [where P = "\<lambda>_ _. True"])
    (auto intro!: traced_intro simp: nvs_load_def open_nvs_def nvs_open_def
      nvs_store_read_str_def nvs_str_len_def nvs_get_str_def split: option.splits)

lemma ends_nvs_save:
  "ends E h (nvs_save creds) (\<lambda>h' r. case r of
     Inr _ \<Rightarrow> contents c h' = (contents c h)(ssid_at := {Some (wc_ssid creds)}, password_at := {Some (wc_password creds)})
   | Inl _ \<Rightarrow> True)"
proof -
  have set: "ends E h' (nvs_set_str ns key v) (\<lambda>h'' r. case r of
      Inr _ \<Rightarrow> contents c h'' = (contents c h')((ns, key) := {Some v}) | Inl _ \<Rightarrow> True)" for h' ns key v
    by (rule ends_conseq [OF ends_nvs_set_str [where c = c]]) (auto split: sum.splits)
  show ?thesis
    unfolding nvs_save_def
    by (rule ends_try, rule ends_conseq [OF ends_open_nvs [where c = c]])
      (auto intro!: ends_try ends_return ends_conseq [OF set] split: sum.splits)
qed

text \<open>After clearing, whatever the two removals answered, the old values may be gone.\<close>

lemma ends_nvs_clear:
  "ends E h nvs_clear (\<lambda>h' r. case r of
     Inr _ \<Rightarrow> None \<in> contents c h' ssid_at \<and> None \<in> contents c h' password_at | Inl _ \<Rightarrow> True)"
  unfolding nvs_clear_def nvs_remove_def
  by (rule ends_try, rule ends_conseq [OF ends_open_nvs [where c = c]])
    (auto intro!: ends_intro split: sum.splits)

text \<open>
  C31: credentials that were saved are the ones loaded: after a save that succeeded, a load returns
  them, or nothing; with an SSID, and a driver that works, it returns them. An empty SSID is
  loaded as nothing.
\<close>

theorem wifi_creds_roundtrip:
  assumes "flash_faithful E c"
  shows "ends E h (do { r \<leftarrow> nvs_save creds; l \<leftarrow> nvs_load; State_Monad.return (r, l) })
    (\<lambda>_ (r, l). case r of
       Inl _ \<Rightarrow> True
     | Inr _ \<Rightarrow> (l = None \<or> l = Some creds) \<and> (wc_ssid creds = [] \<longrightarrow> l = None) \<and>
         (flash_reliable E \<longrightarrow> wc_ssid creds \<noteq> [] \<longrightarrow> l = Some creds))"
proof (rule ends_bind, rule ends_conseq [OF ends_nvs_save [where c = c]], rule ends_bind)
  fix h' :: history and r :: "unit res"
  assume saved: "case r of
     Inr _ \<Rightarrow> contents c h' = (contents c h)(ssid_at := {Some (wc_ssid creds)}, password_at := {Some (wc_password creds)})
   | Inl _ \<Rightarrow> True"
  show "ends E h' nvs_load (\<lambda>h'' l. ends E h'' (State_Monad.return (r, l))
    (\<lambda>_ (r, l). case r of
       Inl _ \<Rightarrow> True
     | Inr _ \<Rightarrow> (l = None \<or> l = Some creds) \<and> (wc_ssid creds = [] \<longrightarrow> l = None) \<and>
         (flash_reliable E \<longrightarrow> wc_ssid creds \<noteq> [] \<longrightarrow> l = Some creds)))"
  proof (cases r)
    case (Inl e)
    then show ?thesis
      by (intro ends_conseq [OF nvs_load_ends]) (simp add: ends_return)
  next
    case (Inr u)
    with saved have "contents c h' ssid_at = {Some (wc_ssid creds)}"
      "contents c h' password_at = {Some (wc_password creds)}" by simp_all
    from ends_nvs_load [OF assms this] Inr show ?thesis
      by (auto intro!: ends_return elim!: ends_conseq)
  qed
qed

theorem wifi_creds_roundtrip_witness:
  "ends (working_env Map.empty) [] (do { r \<leftarrow> nvs_save \<lparr>wc_ssid = ''home'', wc_password = ''pw''\<rparr>;
     l \<leftarrow> nvs_load; State_Monad.return (r, l) })
   (\<lambda>_ (r, l). case r of Inl _ \<Rightarrow> True | Inr _ \<Rightarrow> l = Some \<lparr>wc_ssid = ''home'', wc_password = ''pw''\<rparr>)"
  by (rule ends_conseq [OF wifi_creds_roundtrip [OF working_faithful]])
    (auto simp: working_reliable split: sum.splits)

text \<open>
  As written, saving is not atomic. When power is lost between its two writes, the load at the
  next boot pairs the new SSID with the old password.
\<close>

theorem torn_save_mixes:
  assumes "flash_faithful E c" "flash_reliable E"
    and "contents c h password_at = {Some old_password}" "wc_ssid creds \<noteq> []"
    and "run_state (nvs_save creds) \<lparr>env_of = E, hist = h\<rparr> = (r, \<lparr>env_of = E, hist = h @ e1 # e2 # tr\<rparr>)"
    and "e2 = Flash (NvsSetStr NVS_NAMESPACE KEY_SSID (wc_ssid creds) (Inr ()))"
  shows "ends E (h @ [e1, e2]) nvs_load
    (\<lambda>_ l. l = Some \<lparr>wc_ssid = wc_ssid creds, wc_password = old_password\<rparr>)"
proof -
  have "e1 = Flash (NvsOpen NVS_NAMESPACE True (Inr ()))"
    using assms(5) flash_reliable_open [OF assms(2)]
    by (auto simp: nvs_save_def try_io_def open_nvs_def nvs_open_def nvs_set_str_def split: sum.splits)
  then have "contents c (h @ [e1, e2]) ssid_at = {Some (wc_ssid creds)}"
    "contents c (h @ [e1, e2]) password_at = {Some old_password}"
    using assms(3,6) by simp_all
  from ends_nvs_load [OF assms(1) this] show ?thesis
    using assms(2,4) by (auto elim!: ends_conseq)
qed

definition old_flash :: "location \<Rightarrow> string option" where
  "old_flash = [ssid_at \<mapsto> ''attic'', password_at \<mapsto> ''old'']"

theorem torn_save_mixes_witness:
  "ends (working_env old_flash)
     [Flash (NvsOpen NVS_NAMESPACE True (Inr ())), Flash (NvsSetStr NVS_NAMESPACE KEY_SSID ''home'' (Inr ()))]
     nvs_load (\<lambda>_ l. l = Some \<lparr>wc_ssid = ''home'', wc_password = ''old''\<rparr>)"
proof -
  let ?e1 = "Flash (NvsOpen NVS_NAMESPACE True (Inr ()))"
  let ?e2 = "Flash (NvsSetStr NVS_NAMESPACE KEY_SSID ''home'' (Inr ()))"
  have c: "contents (holding old_flash) [] password_at = {Some ''old''}"
    by (simp add: holding_def old_flash_def)
  have run: "run_state (nvs_save \<lparr>wc_ssid = ''home'', wc_password = ''new''\<rparr>) \<lparr>env_of = working_env old_flash, hist = []\<rparr>
    = (Inr (), \<lparr>env_of = working_env old_flash, hist = [] @ ?e1 # ?e2 # [Flash (NvsSetStr NVS_NAMESPACE KEY_PASS ''new'' (Inr ()))]\<rparr>)"
    by (simp add: nvs_save_def try_io_def open_nvs_def nvs_open_def nvs_set_str_def working_env_def working_flash_def)
  from torn_save_mixes [OF working_faithful working_reliable c _ run] show ?thesis by simp
qed

end
