(* ===== verification/Claim_Hub.thy ===== *)
theory Claim_Hub
  imports Wifi_Store
begin

text \<open>
  Time synchronisation (\<open>get_sync_sntp\<close> of \<open>src/time.rs\<close>), the claim of the token
  (\<open>src/auth.rs\<close>) and \<open>provision_hub\<close> with \<open>claim_hub_after_time_sync\<close> of \<open>src/main.rs\<close>. The
  properties: when a claim is made and for which pair, what a call gets, that all boots get the
  same, and how a token can be lost. The timeouts and buffer sizes of the connection are left out.
\<close>

section \<open>Time\<close>

text \<open>The loop over the attempts; \<open>EspSntp\<close> is kept alive by the caller.\<close>

fun sync_attempts :: "nat list \<Rightarrow> unit res io" where
  "sync_attempts [] = State_Monad.return (Inl SntpTimeout)"
| "sync_attempts (attempt # attempts) = do {
     status \<leftarrow> ask (\<lambda>E h. sntp_status_at E h) SntpStatus;
     if status = SyncCompleted then State_Monad.return (Inr ())
     else do {
       _ \<leftarrow> emit (SleepMs 1000);
       sync_attempts attempts
     }
   }"

definition get_sync_sntp :: "unit res io" where
  "get_sync_sntp =
     try_io (ask (\<lambda>E h. sntp_start_at E h) SntpStart) (\<lambda>_. sync_attempts [1..<31])"

section \<open>Claiming\<close>

definition claim_hub_token :: "string \<Rightarrow> string \<Rightarrow> string res io" where
  "claim_hub_token device_id hub_secret =
     try_io (with_context ''connect to auth.v2.AuthService'' (ask (\<lambda>E h. auth_dial_at E h) AuthDial)) (\<lambda>_. do {
       resp \<leftarrow> ask (\<lambda>E h. claim_at E h device_id hub_secret) (ClaimRpc device_id hub_secret);
       State_Monad.return (case resp of
           Inr token \<Rightarrow> Inr token
         | Inl FailedPrecondition \<Rightarrow> Inl AlreadyClaimed
         | Inl (OtherStatus status) \<Rightarrow> Inl (Context ''auth.v2.ClaimHubToken RPC failed'' status))
     })"

text \<open>The hub's id and its token: given by the build, found in the flash, or claimed.\<close>

definition provision_hub :: "build_env \<Rightarrow> (string \<times> string) res io" where
  "provision_hub build =
     try_io (load_or_generate_creds build) (\<lambda>(device_id, hub_secret).
     case HUB_TOKEN build of
       Some dev_token \<Rightarrow>
         try_io (seed_jwt_from_env dev_token) (\<lambda>_. State_Monad.return (Inr (device_id, dev_token)))
     | None \<Rightarrow>
         try_io read_hub_jwt (\<lambda>stored.
         case stored of
           Some jwt \<Rightarrow> State_Monad.return (Inr (device_id, jwt))
         | None \<Rightarrow>
             try_io (with_context ''build tokio runtime for ClaimHubToken'' (ask runtime_at RuntimeBuild)) (\<lambda>_.
             try_io (with_context ''ClaimHubToken failed'' (claim_hub_token device_id hub_secret)) (\<lambda>jwt.
             try_io (write_hub_jwt jwt) (\<lambda>_.
             State_Monad.return (Inr (device_id, jwt)))))))"

definition claim_hub_after_time_sync :: "build_env \<Rightarrow> (string \<times> string) res io" where
  "claim_hub_after_time_sync build = try_io get_sync_sntp (\<lambda>_. provision_hub build)"

section \<open>Waiting for the time\<close>

fun is_sync_status :: "event \<Rightarrow> bool" where
  "is_sync_status (SntpStatus _) = True"
| "is_sync_status _ = False"

text \<open>\<open>n\<close> unsuccessful looks at the status, a second apart.\<close>

inductive waited :: "nat \<Rightarrow> history \<Rightarrow> bool" where
  none: "waited 0 []"
| more: "status \<noteq> SyncCompleted \<Longrightarrow> waited n tr \<Longrightarrow>
    waited (Suc n) (SntpStatus status # SleepMs 1000 # tr)"

definition synced_after :: "nat \<Rightarrow> history \<Rightarrow> bool" where
  "synced_after n tr \<longleftrightarrow> (\<exists>pre. waited n pre \<and> tr = pre @ [SntpStatus SyncCompleted])"

lemma traced_sync_attempts:
  "traced E (sync_attempts xs) (\<lambda>tr r.
     (case r of Inr _ \<Rightarrow> (\<exists>n < length xs. synced_after n tr) | Inl e \<Rightarrow> e = SntpTimeout \<and> waited (length xs) tr))"
proof (induction xs)
  case Nil
  then show ?case by (auto intro!: traced_return waited.none)
next
  case (Cons x xs)
  have now: "synced_after 0 [SntpStatus SyncCompleted]"
    unfolding synced_after_def by (auto intro: waited.none)
  have later: "synced_after (Suc n) (SntpStatus s # SleepMs 1000 # tr)"
    if "synced_after n tr" "s \<noteq> SyncCompleted" for n s tr
    using that unfolding synced_after_def by (auto intro!: waited.more)
  have rest: "traced E (sync_attempts xs) (\<lambda>tr r. case r of
      Inr _ \<Rightarrow> \<exists>n < length (x # xs). synced_after n (SntpStatus s # SleepMs 1000 # tr)
    | Inl e \<Rightarrow> e = SntpTimeout \<and> waited (length (x # xs)) (SntpStatus s # SleepMs 1000 # tr))"
    if "s \<noteq> SyncCompleted" for s
    by (rule traced_conseq [OF Cons.IH]) (use that in \<open>auto split: sum.splits intro: waited.more later\<close>)
  show ?case
    using now by (simp, intro traced_intro) (use rest in \<open>auto split: sum.splits\<close>)
qed


lemma traced_get_sync_sntp:
  "traced E get_sync_sntp (\<lambda>tr r. case r of
      Inr _ \<Rightarrow> \<exists>n < 30. \<exists>tr'. tr = SntpStart (Inr ()) # tr' \<and> synced_after n tr'
    | Inl e \<Rightarrow> tr = [SntpStart (Inl e)] \<or>
        e = SntpTimeout \<and> (\<exists>tr'. tr = SntpStart (Inr ()) # tr' \<and> waited 30 tr'))"
  unfolding get_sync_sntp_def
  by (intro traced_intro) (auto intro!: traced_conseq [OF traced_sync_attempts] split: sum.splits)

section \<open>Claims\<close>

text \<open>The claims of a history: who asked with which secret, and the answer.\<close>

fun claim_of :: "event \<Rightarrow> (string \<times> string \<times> (claim_failure + string)) list" where
  "claim_of (ClaimRpc device_id secret r) = [(device_id, secret, r)]"
| "claim_of _ = []"

definition claims :: "history \<Rightarrow> (string \<times> string \<times> (claim_failure + string)) list" where
  "claims tr = concat (map claim_of tr)"

lemma claims_simps [simp]:
  "claims [] = []" "claims (e # tr) = claim_of e @ claims tr" "claims (a @ b) = claims a @ claims b"
  by (simp_all add: claims_def)

interpretation no_claims: trace_monoid "\<lambda>tr. claims tr = []"
  by unfold_locales simp_all

lemmas flash_calls = nvs_open_def nvs_str_len_def nvs_get_str_def nvs_set_str_def nvs_remove_def

text \<open>Calls into the flash that concern one key leave the others alone.\<close>

fun touches :: "location \<Rightarrow> event \<Rightarrow> bool" where
  "touches l (Flash (NvsSetStr ns key _ _)) = (l = (ns, key))"
| "touches l (Flash (NvsRemove ns key _)) = (l = (ns, key))"
| "touches l (Flash (NvsStrLen ns key _)) = (l = (ns, key))"
| "touches l (Flash (NvsGetStr ns key _ _)) = (l = (ns, key))"
| "touches _ _ = False"

definition away :: "location \<Rightarrow> history \<Rightarrow> bool" where
  "away l tr \<longleftrightarrow> list_all (\<lambda>e. \<not> touches l e) tr"

lemma away_simps [simp]:
  "away l []" "away l (e # tr) \<longleftrightarrow> \<not> touches l e \<and> away l tr" "away l (a @ b) \<longleftrightarrow> away l a \<and> away l b"
  by (simp_all add: away_def)

lemma away_effect: "\<not> touches l e \<Longrightarrow> flash_effect e c l = c l"
  by (cases "(l, e)" rule: touches.cases) (auto split: sum.splits option.splits)

lemma away_contents: "away l tr \<Longrightarrow> contents c (h @ tr) l = contents c h l"
proof -
  assume "away l tr"
  then have "fold flash_effect tr d l = d l" for d
    by (induction tr arbitrary: d) (simp_all add: away_effect)
  then show ?thesis by simp
qed

lemma read_str_no_claims [traced_intro]:
  assumes "\<And>tr r. claims tr = [] \<Longrightarrow> (\<And>l. l \<noteq> (ns, key) \<Longrightarrow> away l tr) \<Longrightarrow> Q tr r"
  shows "traced E (read_str ns key) Q"
  unfolding read_str_def flash_calls by (intro traced_intro) (auto intro: assms)

lemma waited_no_claims: "waited n tr \<Longrightarrow> claims tr = []"
  by (induction rule: waited.induct) auto

lemma sntp_no_claims: "traced E get_sync_sntp (\<lambda>tr _. claims tr = [])"
  by (rule traced_conseq [OF traced_get_sync_sntp])
    (auto simp: synced_after_def waited_no_claims split: sum.splits)

text \<open>Operations on the token alone.\<close>

definition token_only :: "history \<Rightarrow> bool" where
  "token_only tr \<longleftrightarrow> claims tr = [] \<and> away device_id_at tr \<and> away hub_secret_at tr"

lemma load_no_claims:
  "traced E (load_or_generate_creds build) (\<lambda>tr _. claims tr = [] \<and> away jwt_at tr)"
  unfolding load_or_generate_creds_def flash_calls Let_def
  by (auto intro!: traced_intro split: sum.splits option.splits)

lemma read_hub_jwt_only: "traced E read_hub_jwt (\<lambda>tr _. token_only tr)"
  unfolding read_hub_jwt_def flash_calls token_only_def
  by (auto intro!: traced_intro split: sum.splits)

lemma write_hub_jwt_only: "traced E (write_hub_jwt jwt) (\<lambda>tr _. token_only tr)"
  unfolding write_hub_jwt_def flash_calls token_only_def
  by (auto intro!: traced_intro split: sum.splits)

lemma seed_jwt_only: "traced E (seed_jwt_from_env jwt) (\<lambda>tr _. token_only tr)"
  unfolding seed_jwt_from_env_def
  by (rule traced_try, rule traced_conseq [OF read_hub_jwt_only])
    (auto intro!: traced_intro traced_conseq [OF write_hub_jwt_only] simp: token_only_def split: sum.splits)

lemma identity_upd [simp]: "identity (c(jwt_at := vs)) q = identity c q"
  by (simp add: identity_def)

lemma ends_token_only:
  assumes "ends E h m P" "traced E m (\<lambda>tr _. token_only tr)"
    and "\<And>h' r. P h' r \<Longrightarrow> claims h' = claims h \<Longrightarrow>
      (\<And>q. identity (contents c h') q = identity (contents c h) q) \<Longrightarrow> Q h' r"
  shows "ends E h m Q"
proof -
  have "ends E h m (\<lambda>h' _. claims h' = claims h \<and>
      (\<forall>q. identity (contents c h') q = identity (contents c h) q))"
    by (rule ends_traced [OF assms(2)])
      (simp del: contents_simps(2) add: token_only_def identity_def away_contents)
  with assms(1) show ?thesis
    by (rule ends_conseq [OF ends_conj]) (use assms(3) in blast)
qed

text \<open>The backend would grant the token to this id, after the claims made so far.\<close>

definition granted :: "env \<Rightarrow> history \<Rightarrow> string \<Rightarrow> string \<Rightarrow> bool" where
  "granted E h d t \<longleftrightarrow> (\<exists>h' s. claims h' = claims h \<and> claim_at E h' d s = Inr t)"

lemma ends_claim_hub_token:
  assumes "held c I h"
  shows "ends E h (claim_hub_token d s) (\<lambda>h' r. held c I h' \<and> contents c h' = contents c h \<and>
    (\<exists>new. claims h' = claims h @ new \<and>
      (case r of Inr t \<Rightarrow> new = [(d, s, Inr t)] \<and> granted E h d t | Inl _ \<Rightarrow> new = [] \<or> (\<exists>f. new = [(d, s, Inl f)]))))"
  unfolding claim_hub_token_def
  by (intro ends_intro)
    (use assms held_now [OF assms] in \<open>auto simp: held_append context_res_def granted_def
      split: sum.splits claim_failure.splits intro!: ends_intro exI [of _ "h @ [AuthDial (Inr ())]"]\<close>)


section \<open>Provisioning\<close>

text \<open>
  A proper use of the claim: none, or one that was needed (no token given by the build or found), for
  the pair the flash holds.
\<close>

definition properly ::
  "build_env \<Rightarrow> contents \<Rightarrow> contents \<Rightarrow> (string \<times> string \<times> (claim_failure + string)) list \<Rightarrow> bool" where
  "properly build before after new \<longleftrightarrow> new = [] \<or>
     HUB_TOKEN build = None \<and> None \<in> before jwt_at \<and>
     (\<exists>d s answer. new = [(d, s, answer)] \<and> identity after (d, s))"

definition provisioned ::
  "env \<Rightarrow> (string \<times> string) set \<Rightarrow> build_env \<Rightarrow> contents \<Rightarrow> history \<Rightarrow> history \<Rightarrow> (string \<times> string) res \<Rightarrow> bool" where
  "provisioned E pairs build c h h' r \<longleftrightarrow>
     held c (issued pairs) h' \<and>
     (\<forall>q. identity (contents c h) q \<longrightarrow> identity (contents c h') q) \<and>
     (\<exists>new. claims h' = claims h @ new \<and> properly build (contents c h) (contents c h') new) \<and>
     (case r of
        Inr (d, t) \<Rightarrow> contents c h' jwt_at = {Some t} \<and> (\<exists>s. identity (contents c h') (d, s)) \<and>
          (case HUB_TOKEN build of Some t' \<Rightarrow> t = t' | None \<Rightarrow> Some t \<in> contents c h jwt_at \<or> granted E h d t)
      | Inl _ \<Rightarrow> True) \<and>
     (HUB_TOKEN build = None \<longrightarrow>
       (\<forall>t. contents c h jwt_at = {Some t} \<longrightarrow> contents c h' jwt_at = {Some t}) \<and>
       contents c h' jwt_at \<subseteq> contents c h jwt_at \<union>
         {Some t |t. \<exists>q. identity (contents c h') q \<and> granted E h (fst q) t})"

lemma ends_load_creds:
  assumes "flash_faithful E c" "held c (issued pairs) h"
    "(BUILD_DEVICE_ID build, BUILD_HUB_SECRET build) \<in> pairs"
  shows "ends E h (load_or_generate_creds build) (\<lambda>h' r. held c (issued pairs) h' \<and>
    (\<forall>q. identity (contents c h) q \<longrightarrow> identity (contents c h') q) \<and>
    claims h' = claims h \<and> contents c h' jwt_at = contents c h jwt_at \<and>
    (case r of Inr p \<Rightarrow> identity (contents c h') p | Inl _ \<Rightarrow> True))"
  by (rule ends_conseq [OF ends_conj [OF
        ends_traced [OF load_no_claims [of E build],
          where Q = "\<lambda>h' _. claims h' = claims h \<and> contents c h' jwt_at = contents c h jwt_at"]
        ends_load_identity [OF assms]]])
    (auto simp del: contents_simps(2) simp: away_contents split: sum.splits)

lemma ends_provision_hub:
  assumes f: "flash_faithful E c" and I: "held c (issued pairs) h"
    and pair: "(BUILD_DEVICE_ID build, BUILD_HUB_SECRET build) \<in> pairs"
  shows "ends E h (provision_hub build) (provisioned E pairs build c h)"
  unfolding provision_hub_def
proof (rule ends_try, rule ends_conseq [OF ends_load_creds [OF f I pair]], goal_cases)
  case (1 h1 r)
  then have I1: "held c (issued pairs) h1" by simp
  show ?case
  proof (cases r)
    case (Inl e)
    with 1 show ?thesis by (auto simp: provisioned_def properly_def)
  next
    case (Inr p)
    obtain d s where p: "p = (d, s)" by fastforce
    with 1 Inr have id1: "identity (contents c h1) (d, s)" and keep: "\<And>q. identity (contents c h) q \<Longrightarrow> identity (contents c h1) q"
      and cl1: "claims h1 = claims h" and j1: "contents c h1 jwt_at = contents c h jwt_at" by auto
    have ex1: "\<exists>s. identity (contents c h1) (d, s)" using id1 by blast
    have ex2: "granted E h d t \<Longrightarrow> \<exists>a. (\<exists>b. identity (contents c h1) (a, b)) \<and> granted E h a t" for t
      using id1 by blast
    note open_defs = ex1 provisioned_def properly_def id1 keep cl1 j1
    have seeded: "ends E h1 (try_io (seed_jwt_from_env t) (\<lambda>_. State_Monad.return (Inr (d, t))))
        (provisioned E pairs build c h)" if "HUB_TOKEN build = Some t" for t
      by (rule ends_try, rule ends_token_only [where c = c, OF ends_seed_jwt_from_env [OF f stable_issued issued_ignores I1] seed_jwt_only])
        (use that id1 in \<open>auto simp: open_defs split: sum.splits intro!: ends_return\<close>)
    have written: "ends E h3 (try_io (write_hub_jwt t) (\<lambda>_. State_Monad.return (Inr (d, t))))
        (provisioned E pairs build c h)"
      if "HUB_TOKEN build = None" "held c (issued pairs) h3" "claims h3 = claims h @ [(d, s, Inr t)]"
        "None \<in> contents c h jwt_at" "contents c h3 = (contents c h1)(jwt_at := {None})" "granted E h d t" for h3 t
      by (rule ends_try, rule ends_token_only [where c = c, OF ends_write_hub_jwt [OF issued_ignores that(2)] write_hub_jwt_only])
        (use that id1 in \<open>auto simp: open_defs ex2 split: sum.splits intro!: ends_return ex2\<close>)
    have claimed: "ends E h2 (try_io (with_context m (ask runtime_at RuntimeBuild)) (\<lambda>_.
             try_io (with_context m' (claim_hub_token d s)) (\<lambda>jwt.
             try_io (write_hub_jwt jwt) (\<lambda>_.
             State_Monad.return (Inr (d, jwt)))))) (provisioned E pairs build c h)"
      if "HUB_TOKEN build = None" "held c (issued pairs) h2" "claims h2 = claims h"
        "None \<in> contents c h jwt_at" "contents c h2 = (contents c h1)(jwt_at := {None})" for h2 m m'
    proof (intro ends_try ends_with_context ends_ask, goal_cases)
      case 1
      let ?e = "RuntimeBuild (runtime_at E h2)"
      have I3: "held c (issued pairs) (h2 @ [?e])"
        using that(2) held_now [OF that(2)] by (simp add: held_append)
      show ?case
      proof (cases "runtime_at E h2")
        case (Inl e)
        with I3 that id1 show ?thesis by (auto simp: open_defs)
      next
        case (Inr u)
        with I3 have I4: "held c (issued pairs) (h2 @ [RuntimeBuild (Inr u)])" by simp
        have g: "granted E (h2 @ [RuntimeBuild (Inr ())]) = granted E h"
          by (intro ext) (simp add: granted_def that(3))
        show ?thesis
          unfolding Inr context_res_simps sum.case
        proof (intro ends_try ends_with_context ends_conseq [OF ends_claim_hub_token [OF I4]], goal_cases)
          case (1 h' r)
          then show ?case
            by (cases r) (use that id1 in \<open>auto simp: open_defs g intro!: written\<close>)
        qed
      qed
    qed
    show ?thesis
    proof (cases "HUB_TOKEN build")
      case (Some t)
      with seeded [OF this] Inr p show ?thesis by simp
    next
      case None
      show ?thesis
        unfolding Inr p None sum.case prod.case option.case
        by (rule ends_try, rule ends_token_only [where c = c, OF ends_read_hub_jwt [OF f stable_issued I1] read_hub_jwt_only])
          (use None id1 in \<open>auto simp: open_defs split: sum.splits option.splits intro!: ends_return claimed\<close>)
    qed
  qed
qed

section \<open>The properties\<close>

text \<open>A claim is only made once the clock was synchronised.\<close>

fun sync_step :: "event \<Rightarrow> bool \<Rightarrow> bool option" where
  "sync_step (ClaimRpc _ _ _) synced = (if synced then Some synced else None)"
| "sync_step (SntpStatus status) synced = Some (synced \<or> status = SyncCompleted)"
| "sync_step _ synced = Some synced"

definition claims_synced :: "history \<Rightarrow> bool" where
  "claims_synced tr \<longleftrightarrow> run_steps sync_step tr False \<noteq> None"

lemma synced_stays: "run_steps sync_step tr True = Some True"
proof (induction tr)
  case (Cons e tr)
  then show ?case by (cases e) simp_all
qed simp

lemma waited_syncs: "waited n tr \<Longrightarrow> run_steps sync_step tr False = Some False"
  by (induction rule: waited.induct) auto

lemma synced_after_claims: "synced_after n tr \<Longrightarrow> claims_synced (SntpStart (Inr ()) # tr @ rest)"
  by (auto simp: synced_after_def claims_synced_def run_steps_append waited_syncs synced_stays)

lemma waited_no_flash: "waited n tr \<Longrightarrow> no_flash tr"
  by (induction rule: waited.induct) auto

lemma sntp_no_flash: "traced E get_sync_sntp (\<lambda>tr _. no_flash tr \<and> claims tr = [])"
  by (rule traced_conseq [OF traced_get_sync_sntp])
    (auto simp: synced_after_def waited_no_claims waited_no_flash split: sum.splits)

lemma provision_total: "traced E (provision_hub build) (\<lambda>_ _. True)"
  unfolding provision_hub_def claim_hub_token_def
  by (auto intro!: traced_intro traced_conseq [OF load_no_claims] traced_conseq [OF read_hub_jwt_only]
      traced_conseq [OF write_hub_jwt_only] traced_conseq [OF seed_jwt_only] split: sum.splits option.splits)

lemma traced_claims_synced:
  "traced E (claim_hub_after_time_sync build) (\<lambda>tr _. claims_synced tr)"
  unfolding claim_hub_after_time_sync_def
proof (rule traced_try, rule traced_conseq [OF traced_get_sync_sntp], goal_cases)
  case (1 tr r)
  then show ?case
    by (cases r) (auto intro!: traced_conseq [OF provision_total] dest: synced_after_claims
        simp: claims_synced_def waited_syncs)
qed

lemma ends_claim_hub:
  assumes "flash_faithful E c" "held c (issued pairs) h"
    "(BUILD_DEVICE_ID build, BUILD_HUB_SECRET build) \<in> pairs"
  shows "ends E h (claim_hub_after_time_sync build) (provisioned E pairs build c h)"
  unfolding claim_hub_after_time_sync_def
proof (rule ends_try, rule ends_traced [OF sntp_no_flash])
  fix tr and r :: "unit res"
  assume tr: "no_flash tr \<and> claims tr = []"
  then have I: "held c (issued pairs) (h @ tr)" using no_flash_held assms(2) by blast
  have same: "provisioned E pairs build c (h @ tr) = provisioned E pairs build c h"
  proof -
    have "granted E (h @ tr) = granted E h" using tr by (intro ext) (simp add: granted_def)
    moreover have "contents c (h @ tr) = contents c h" "claims (h @ tr) = claims h"
      using tr by (simp_all add: no_flash_contents)
    ultimately show ?thesis by (intro ext) (simp only: provisioned_def)
  qed
  show "case r of Inl e \<Rightarrow> provisioned E pairs build c h (h @ tr) (Inl e)
    | Inr a \<Rightarrow> ends E (h @ tr) (provision_hub build) (provisioned E pairs build c h)"
    using ends_provision_hub [OF assms(1) I assms(3)] I tr
    unfolding same by (auto simp: provisioned_def properly_def no_flash_contents split: sum.splits)
qed


text \<open>
  C6: the one-shot claim is only used when it is needed. One call of \<open>claim_hub_after_time_sync\<close> makes at
  most one claim, only when the build gives no token and the flash may hold none, for the id and the secret
  the flash then holds, and only after the clock was synchronised. A call that gets credentials leaves
  them in the flash: the token it returns, and the id with its secret. A boot with stored Wi-Fi makes one such
  call; provisioning makes one for every pair of the phone that connects, until one succeeds.
\<close>

theorem claim_only_when_needed:
  assumes "flash_faithful E c" and "held c (issued pairs) h"
    and "(BUILD_DEVICE_ID build, BUILD_HUB_SECRET build) \<in> pairs"
  shows "ends E h (claim_hub_after_time_sync build) (provisioned E pairs build c h) \<and>
    traced E (claim_hub_after_time_sync build) (\<lambda>tr _. claims_synced tr)"
  using ends_claim_hub [OF assms] traced_claims_synced by blast

theorem claim_only_when_needed_witness:
  "ends (working_env Map.empty) [] (claim_hub_after_time_sync sample_build) (\<lambda>h' r.
     length (claims h') \<le> 1 \<and> (case r of Inr (d, t) \<Rightarrow> contents (holding Map.empty) h' jwt_at = {Some t} | Inl _ \<Rightarrow> True))"
proof -
  have "held (holding Map.empty) (issued {(''dev'', ''sec'')}) []"
    by (simp add: held_def issued_def holding_def)
  from claim_only_when_needed [OF working_faithful this, of sample_build, THEN conjunct1] show ?thesis
    by (auto simp: sample_build_def provisioned_def properly_def elim!: ends_conseq split: sum.splits)
qed

section \<open>Many boots\<close>

text \<open>
  One call of \<open>claim_hub_after_time_sync\<close> after another, possibly of different builds; what each of them
  got. This is the part of a boot that concerns the identity and the token: a boot with stored Wi-Fi makes one
  call, provisioning as many as its attempts need, and whatever else a boot does leaves their keys alone.
\<close>

definition boots :: "build_env list \<Rightarrow> (string \<times> string) res list io" where
  "boots builds = for_each builds
     (\<lambda>build results. do { r \<leftarrow> claim_hub_after_time_sync build; State_Monad.return (results @ [r]) }) []"

definition got :: "(string \<times> string) res \<Rightarrow> (string \<times> string) option" where
  "got r = (case r of Inl _ \<Rightarrow> None | Inr p \<Rightarrow> Some p)"

definition secured :: "contents \<Rightarrow> string \<times> string \<Rightarrow> bool" where
  "secured c p \<longleftrightarrow> c jwt_at = {Some (snd p)} \<and> (\<exists>s. identity c (fst p, s))"

lemma ends_for_each:
  assumes "\<And>x h s. x \<in> set xs \<Longrightarrow> J h s \<Longrightarrow> ends E h (f x s) J"
    and "J h s"
  shows "ends E h (for_each xs f s) J"
  using assms
proof (induction xs arbitrary: h s)
  case Nil
  then show ?case by (auto intro: ends_return)
next
  case (Cons x xs)
  from Cons.prems(1) [OF _ Cons.prems(2), of x] show ?case
    by (auto intro!: ends_bind Cons.IH elim!: ends_conseq intro: Cons.prems(1))
qed

lemma secured_boot:
  assumes "provisioned E pairs build c h h' r" "HUB_TOKEN build = None" "secured (contents c h) p"
  shows "secured (contents c h') p \<and> (got r = None \<or> got r = Some p) \<and> claims h' = claims h"
proof -
  from assms(3) obtain s where s: "contents c h jwt_at = {Some (snd p)}" "identity (contents c h) (fst p, s)"
    by (auto simp: secured_def)
  with assms(1,2) have s': "contents c h' jwt_at = {Some (snd p)}" "identity (contents c h') (fst p, s)"
    by (auto simp: provisioned_def)
  then have "secured (contents c h') p" by (auto simp: secured_def)
  moreover from assms(1) s' have "got r = None \<or> got r = Some p"
    by (auto simp: provisioned_def got_def identity_def prod_eq_iff split: sum.splits)
  moreover from assms(1) s(1) have "claims h' = claims h"
    by (auto simp: provisioned_def properly_def)
  ultimately show ?thesis by blast
qed


lemma provisioned_secured:
  "provisioned E pairs build c h h' r \<Longrightarrow> got r = Some p \<Longrightarrow> secured (contents c h') p"
  by (cases p) (auto simp: provisioned_def got_def secured_def split: sum.splits)

lemma boots_invariant:
  assumes "flash_faithful E c"
    and builds: "\<And>build. build \<in> set builds \<Longrightarrow> HUB_TOKEN build = None \<and>
      (BUILD_DEVICE_ID build, BUILD_HUB_SECRET build) \<in> pairs"
    and "held c (issued pairs) h" "J0 = (\<lambda>h' rs. held c (issued pairs) h' \<and>
      (\<exists>p. set (map got rs) \<subseteq> {None, Some p} \<and> (Some p \<in> set (map got rs) \<longrightarrow> secured (contents c h') p)))"
  shows "ends E h (boots builds) J0"
  unfolding boots_def
proof (rule ends_for_each)
  show "J0 h []" using assms(3,4) by simp
next
  fix build h rs assume b: "build \<in> set builds" and J: "J0 h rs"
  with assms(4) obtain p where p: "set (map got rs) \<subseteq> {None, Some p}"
    "Some p \<in> set (map got rs) \<longrightarrow> secured (contents c h) p" and I: "held c (issued pairs) h" by blast
  show "ends E h (do { r \<leftarrow> claim_hub_after_time_sync build; State_Monad.return (rs @ [r]) }) J0"
  proof (rule ends_bind, rule ends_conseq [OF ends_claim_hub [OF assms(1) I]])
    show "(BUILD_DEVICE_ID build, BUILD_HUB_SECRET build) \<in> pairs" using builds [OF b] by simp
    fix h' r assume r: "provisioned E pairs build c h h' r"
    then have I': "held c (issued pairs) h'" by (simp add: provisioned_def)
    have "\<exists>q. set (map got (rs @ [r])) \<subseteq> {None, Some q} \<and>
        (Some q \<in> set (map got (rs @ [r])) \<longrightarrow> secured (contents c h') q)"
    proof (cases "Some p \<in> set (map got rs)")
      case True
      with p(2) secured_boot [OF r] builds [OF b] have "secured (contents c h') p" "got r = None \<or> got r = Some p"
        by blast+
      with p(1) show ?thesis by (intro exI [of _ p]) auto
    next
      case False
      with p(1) have none: "set (map got rs) \<subseteq> {None}" by blast
      show ?thesis
      proof (cases "got r")
        case None
        with none show ?thesis by (intro exI [of _ p]) auto
      next
        case (Some q)
        with none provisioned_secured [OF r Some] show ?thesis by (intro exI [of _ q]) auto
      qed
    qed
    with I' show "ends E h' (State_Monad.return (rs @ [r])) J0"
      unfolding assms(4) by (intro ends_return) blast
  qed
qed

text \<open>
  C29: all boots get the same credentials. Over any number of calls of \<open>claim_hub_after_time_sync\<close>, by boots
  and provisioning attempts of any builds without a token of their own, interrupted or not before, with
  claims and flash calls failing at will: the calls that get credentials all get the same ones, and if
  one before them had got credentials, it is those, and none of them makes a claim.
\<close>

theorem boots_agree:
  assumes "flash_faithful E c" and "held c (issued pairs) h"
    and "\<And>build. build \<in> set builds \<Longrightarrow> HUB_TOKEN build = None \<and>
      (BUILD_DEVICE_ID build, BUILD_HUB_SECRET build) \<in> pairs"
  shows "ends E h (boots builds) (\<lambda>h' results. \<exists>p. set (map got results) \<subseteq> {None, Some p}) \<and>
    (\<forall>p. secured (contents c h) p \<longrightarrow>
      ends E h (boots builds) (\<lambda>h' results. set (map got results) \<subseteq> {None, Some p} \<and> claims h' = claims h))"
proof (intro conjI allI impI)
  show "ends E h (boots builds) (\<lambda>h' results. \<exists>p. set (map got results) \<subseteq> {None, Some p})"
    by (rule ends_conseq [OF boots_invariant [OF assms(1,3,2) refl]]) blast+
next
  fix p assume p: "secured (contents c h) p"
  let ?J = "\<lambda>h' rs. held c (issued pairs) h' \<and> secured (contents c h') p \<and> claims h' = claims h \<and>
    set (map got rs) \<subseteq> {None, Some p}"
  have "ends E h (boots builds) ?J"
    unfolding boots_def
  proof (rule ends_for_each)
    fix build h' rs assume "build \<in> set builds" and J: "?J h' rs"
    with assms(3) have b: "HUB_TOKEN build = None" "(BUILD_DEVICE_ID build, BUILD_HUB_SECRET build) \<in> pairs" by auto
    from J have I: "held c (issued pairs) h'" and s: "secured (contents c h') p" by auto
    show "ends E h' (do { r \<leftarrow> claim_hub_after_time_sync build; State_Monad.return (rs @ [r]) }) ?J"
    proof (rule ends_bind, rule ends_conseq [OF ends_claim_hub [OF assms(1) I b(2)]], rule ends_return)
      fix h'' r assume r: "provisioned E pairs build c h' h'' r"
      then have "held c (issued pairs) h''" by (simp add: provisioned_def)
      with secured_boot [OF r b(1) s] J show "?J h'' (rs @ [r])" by auto
    qed
  qed (use assms(2) p in simp)
  then show "ends E h (boots builds) (\<lambda>h' results. set (map got results) \<subseteq> {None, Some p} \<and> claims h' = claims h)"
    by (rule ends_conseq) blast
qed

theorem boots_agree_witness:
  "ends (working_env Map.empty) [] (boots [sample_build, sample_build])
     (\<lambda>h' results. \<exists>p. set (map got results) \<subseteq> {None, Some p})"
proof -
  have "held (holding Map.empty) (issued {(''dev'', ''sec'')}) []"
    by (simp add: held_def issued_def holding_def)
  from boots_agree [OF working_faithful this, of "[sample_build, sample_build]", THEN conjunct1] show ?thesis
    by (simp add: sample_build_def)
qed


section \<open>A lost token\<close>

text \<open>
  The order of the code: when a claim is answered, the flash holds no token and the pair claimed for,
  and what follows is the write of the token.
\<close>

definition claim_then_write :: "contents \<Rightarrow> history \<Rightarrow> history \<Rightarrow> bool" where
  "claim_then_write c h h' \<longleftrightarrow> (\<exists>tr. h' = h @ tr \<and>
     (\<forall>pre d s answer post. tr = pre @ ClaimRpc d s answer # post \<longrightarrow>
        contents c (h @ pre) jwt_at = {None} \<and> identity (contents c (h @ pre)) (d, s) \<and> token_only post))"

lemma claims_split: "claims (pre @ ClaimRpc d s answer # post) \<noteq> []"
  by simp

lemma claim_then_write_none: "claims tr = [] \<Longrightarrow> claim_then_write c h (h @ tr)"
  using claims_split unfolding claim_then_write_def by blast

lemma claim_then_write_after:
  assumes "claims a = []" "claim_then_write c (h @ a) h'"
  shows "claim_then_write c h h'"
proof -
  from assms(2) obtain tr where h': "h' = (h @ a) @ tr"
    and tr: "\<And>pre d s answer post. tr = pre @ ClaimRpc d s answer # post \<Longrightarrow>
      contents c ((h @ a) @ pre) jwt_at = {None} \<and> identity (contents c ((h @ a) @ pre)) (d, s) \<and> token_only post"
    unfolding claim_then_write_def by blast
  have "contents c (h @ pre) jwt_at = {None} \<and> identity (contents c (h @ pre)) (d, s) \<and> token_only post"
    if split: "a @ tr = pre @ ClaimRpc d s answer # post" for pre d s answer post
  proof -
    from split obtain us where "a = pre @ us \<and> us @ tr = ClaimRpc d s answer # post \<or>
        a @ us = pre \<and> tr = us @ ClaimRpc d s answer # post"
      unfolding append_eq_append_conv2 by blast
    then consider "us \<noteq> []" "a = pre @ us" "us @ tr = ClaimRpc d s answer # post"
      | us' where "pre = a @ us'" "tr = us' @ ClaimRpc d s answer # post"
      by (cases us) auto
    then show ?thesis
    proof cases
      case 1
      then have "claims a \<noteq> []" by (cases us) auto
      with assms(1) show ?thesis by blast
    next
      case 2
      from tr [OF 2(2)] show ?thesis unfolding 2(1) append_assoc .
    qed
  qed
  then show ?thesis
    unfolding claim_then_write_def by (intro exI [of _ "a @ tr"]) (simp only: h' append_assoc, blast)
qed

lemma ends_claim_then_write:
  assumes "traced E m (\<lambda>tr _. claims tr = [])" "ends E h m P"
    and "\<And>h' a. P h' (Inr a) \<Longrightarrow> ends E h' (f a) (\<lambda>h'' _. claim_then_write c h' h'')"
  shows "ends E h (try_io m f) (\<lambda>h'' _. claim_then_write c h h'')"
proof -
  have "ends E h m (\<lambda>h' _. \<exists>tr. h' = h @ tr \<and> claims tr = [])"
    by (rule ends_traced [OF assms(1)]) blast
  with assms(2) have "ends E h m (\<lambda>h' r. P h' r \<and> (\<exists>tr. h' = h @ tr \<and> claims tr = []))"
    by (rule ends_conj)
  then show ?thesis
  proof (intro ends_try, elim ends_conseq, elim conjE exE)
    fix h' r tr assume P: "P h' r" and tr: "h' = h @ tr" "claims tr = []"
    show "case r of Inl e \<Rightarrow> claim_then_write c h h' | Inr a \<Rightarrow> ends E h' (f a) (\<lambda>h'' _. claim_then_write c h h'')"
    proof (cases r)
      case (Inl e)
      with tr claim_then_write_none show ?thesis by simp
    next
      case (Inr a)
      from assms(3) [OF P [unfolded this]] have "ends E h' (f a) (\<lambda>h'' _. claim_then_write c h h'')"
        by (rule ends_conseq) (rule claim_then_write_after [OF tr(2)], simp only: tr(1))
      with Inr show ?thesis by simp
    qed
  qed
qed

lemma ends_claim_then_write_token:
  assumes "contents c h jwt_at = {None}" "identity (contents c h) (d, s)"
  shows "ends E h (try_io (with_context m (claim_hub_token d s)) (\<lambda>jwt.
      try_io (write_hub_jwt jwt) (\<lambda>_. State_Monad.return (Inr (d, jwt))))) (\<lambda>h' _. claim_then_write c h h')"
proof -
  have "traced E (try_io (with_context m (claim_hub_token d s)) (\<lambda>jwt.
      try_io (write_hub_jwt jwt) (\<lambda>_. State_Monad.return (Inr (d, jwt)))))
      (\<lambda>tr _. claims tr = [] \<or> (\<exists>answer post. tr = AuthDial (Inr ()) # ClaimRpc d s answer # post \<and> token_only post))"
    unfolding claim_hub_token_def
    by (intro traced_intro)
      (auto intro!: traced_intro traced_conseq [OF write_hub_jwt_only] simp: token_only_def context_res_def split: sum.splits claim_failure.splits)
  then show ?thesis
  proof (rule ends_traced, elim disjE exE conjE)
    fix tr answer post
    assume tr: "tr = AuthDial (Inr ()) # ClaimRpc d s answer # post" and post: "token_only post"
    have "pre = [AuthDial (Inr ())] \<and> d' = d \<and> s' = s \<and> post' = post"
      if "tr = pre @ ClaimRpc d' s' answer' # post'" for pre d' s' answer' post'
    proof -
      from post have none: "claims post = []" by (simp add: token_only_def)
      from that tr obtain pre' where "pre = AuthDial (Inr ()) # pre'"
        "ClaimRpc d s answer # post = pre' @ ClaimRpc d' s' answer' # post'" by (cases pre) auto
      with none show ?thesis by (cases pre') auto
    qed
    moreover have "contents c (h @ [AuthDial (Inr ())]) = contents c h" by simp
    ultimately show "claim_then_write c h (h @ tr)"
      using assms post unfolding claim_then_write_def by (intro exI [of _ tr]) metis
  qed (rule claim_then_write_none)
qed

lemma ends_claim_order:
  assumes f: "flash_faithful E c" and I: "held c (issued pairs) h"
    and pair: "(BUILD_DEVICE_ID build, BUILD_HUB_SECRET build) \<in> pairs"
  shows "ends E h (claim_hub_after_time_sync build) (\<lambda>h' _. claim_then_write c h h')"
  unfolding claim_hub_after_time_sync_def
proof (rule ends_claim_then_write)
  show "traced E get_sync_sntp (\<lambda>tr _. claims tr = [])" by (rule sntp_no_claims)
  show "ends E h get_sync_sntp (\<lambda>h' _. held c (issued pairs) h')"
    by (rule ends_traced [OF sntp_no_flash]) (use I no_flash_held in blast)
  fix h1 u assume I1: "held c (issued pairs) h1"
  show "ends E h1 (provision_hub build) (\<lambda>h' _. claim_then_write c h1 h')"
    unfolding provision_hub_def
  proof (rule ends_claim_then_write)
    show "traced E (load_or_generate_creds build) (\<lambda>tr _. claims tr = [])"
      by (rule traced_conseq [OF load_no_claims]) blast
    show "ends E h1 (load_or_generate_creds build) (\<lambda>h' r. held c (issued pairs) h' \<and>
        (case r of Inr p \<Rightarrow> identity (contents c h') p | Inl _ \<Rightarrow> True))"
      by (rule ends_conseq [OF ends_load_creds [OF f I1 pair]]) blast
    fix h2 p
    assume "held c (issued pairs) h2 \<and> (case Inr p of Inr p \<Rightarrow> identity (contents c h2) p | Inl _ \<Rightarrow> True)"
    then obtain d s where I2: "held c (issued pairs) h2" and p: "p = (d, s)" and id2: "identity (contents c h2) (d, s)"
      by (cases p) auto
    have seeded: "traced E (try_io (seed_jwt_from_env t) (\<lambda>_. State_Monad.return (Inr (d, t)))) (\<lambda>tr _. claims tr = [])" for t
      by (rule traced_try, rule traced_conseq [OF seed_jwt_only])
        (auto simp: token_only_def intro!: traced_intro split: sum.splits)
    show "ends E h2 (case p of (device_id, hub_secret) \<Rightarrow> case HUB_TOKEN build of
       Some dev_token \<Rightarrow>
         try_io (seed_jwt_from_env dev_token) (\<lambda>_. State_Monad.return (Inr (device_id, dev_token)))
     | None \<Rightarrow>
         try_io read_hub_jwt (\<lambda>stored.
         case stored of
           Some jwt \<Rightarrow> State_Monad.return (Inr (device_id, jwt))
         | None \<Rightarrow>
             try_io (with_context ''build tokio runtime for ClaimHubToken'' (ask runtime_at RuntimeBuild)) (\<lambda>_.
             try_io (with_context ''ClaimHubToken failed'' (claim_hub_token device_id hub_secret)) (\<lambda>jwt.
             try_io (write_hub_jwt jwt) (\<lambda>_.
             State_Monad.return (Inr (device_id, jwt))))))) (\<lambda>h' _. claim_then_write c h2 h')"
    proof (cases "HUB_TOKEN build")
      case (Some t)
      show ?thesis
        unfolding p prod.case Some option.case
        by (rule ends_traced [OF seeded]) (rule claim_then_write_none)
    next
      case None
      show ?thesis
        unfolding p prod.case None option.case
      proof (rule ends_claim_then_write)
        show "traced E read_hub_jwt (\<lambda>tr _. claims tr = [])"
          by (rule traced_conseq [OF read_hub_jwt_only]) (simp add: token_only_def)
        show "ends E h2 read_hub_jwt (\<lambda>h' r. \<forall>v. r = Inr v \<longrightarrow> contents c h' = (contents c h2)(jwt_at := {v}))"
          by (rule ends_conseq [OF ends_read_hub_jwt [OF f stable_issued I2]]) auto
        fix h3 and stored :: "string option"
        assume "\<forall>v. Inr stored = Inr v \<longrightarrow> contents c h3 = (contents c h2)(jwt_at := {v})"
        then have c3: "contents c h3 = (contents c h2)(jwt_at := {stored})" by blast
        show "ends E h3 (case stored of
           Some jwt \<Rightarrow> State_Monad.return (Inr (d, jwt))
         | None \<Rightarrow>
             try_io (with_context ''build tokio runtime for ClaimHubToken'' (ask runtime_at RuntimeBuild)) (\<lambda>_.
             try_io (with_context ''ClaimHubToken failed'' (claim_hub_token d s)) (\<lambda>jwt.
             try_io (write_hub_jwt jwt) (\<lambda>_.
             State_Monad.return (Inr (d, jwt)))))) (\<lambda>h' _. claim_then_write c h3 h')"
        proof (cases stored)
          case (Some t)
          show ?thesis
            unfolding Some option.case
            using claim_then_write_none [of "[]" c h3] by (intro ends_return) simp
        next
          case None
          have "contents c (h3 @ [RuntimeBuild r]) = contents c h3" for r by simp
          with c3 None id2 have now: "contents c (h3 @ [RuntimeBuild r]) jwt_at = {None}"
            "identity (contents c (h3 @ [RuntimeBuild r])) (d, s)" for r by simp_all
          show ?thesis
            unfolding None option.case
          proof (rule ends_claim_then_write)
            show "traced E (with_context ''build tokio runtime for ClaimHubToken'' (ask runtime_at RuntimeBuild))
                (\<lambda>tr _. claims tr = [])" by (intro traced_intro) simp
            show "ends E h3 (with_context ''build tokio runtime for ClaimHubToken'' (ask runtime_at RuntimeBuild))
                (\<lambda>h' _. \<exists>r. h' = h3 @ [RuntimeBuild r])" by (intro ends_intro) blast
          qed (use now in \<open>auto simp del: contents_simps intro!: ends_claim_then_write_token\<close>)
        qed
      qed
    qed
  qed
qed

text \<open>
  The backend grants one token per device until the user revokes it (\<open>RevokeHub\<close>, as \<open>src/auth.rs\<close>
  says of it): in whatever goes on from \<open>h\<close> without that, it refuses the device.
\<close>

definition unrevoked :: "env \<Rightarrow> history \<Rightarrow> string \<Rightarrow> bool" where
  "unrevoked E h d \<longleftrightarrow> (\<forall>h' s. (\<exists>new. claims h' = claims h @ new) \<longrightarrow>
     claim_at E h' d s = Inl FailedPrecondition)"

definition token_lost :: "env \<Rightarrow> contents \<Rightarrow> history \<Rightarrow> bool" where
  "token_lost E c h \<longleftrightarrow> contents c h jwt_at \<subseteq> {None} \<and>
     (\<exists>d s. unrevoked E h d \<and> identity (contents c h) (d, s))"

lemma lost_boot:
  assumes "HUB_TOKEN build = None" "token_lost E c h" "provisioned E pairs build c h h' r"
  shows "token_lost E c h' \<and> got r = None"
proof -
  from assms(2) obtain d s where l: "contents c h jwt_at \<subseteq> {None}"
    "unrevoked E h d" "identity (contents c h) (d, s)" by (auto simp: token_lost_def)
  have refused: "\<not> granted E h d u" for u
    using l(2) unfolding granted_def unrevoked_def by (metis append_Nil2 sum.distinct(1))
  have keep: "identity (contents c h) q \<Longrightarrow> identity (contents c h') q" for q
    using assms(3) unfolding provisioned_def by blast
  have "\<exists>new. claims h' = claims h @ new"
    using assms(3) unfolding provisioned_def by blast
  with l(2) have still: "unrevoked E h' d" unfolding unrevoked_def by (metis append_assoc)
  have jwt: "contents c h' jwt_at \<subseteq> contents c h jwt_at \<union>
      {Some t |t. \<exists>q. identity (contents c h') q \<and> granted E h (fst q) t}"
    using assms(1,3) unfolding provisioned_def by blast
  have result: "case r of Inr (d, t) \<Rightarrow> (\<exists>s. identity (contents c h') (d, s)) \<and>
      (Some t \<in> contents c h jwt_at \<or> granted E h d t) | Inl _ \<Rightarrow> True"
    using assms(1,3) by (cases r) (auto simp: provisioned_def)
  from keep [OF l(3)] have only: "fst q = d" if "identity (contents c h') q" for q
    using that by (cases q) (simp add: identity_def)
  have "contents c h' jwt_at \<subseteq> {None}"
    using jwt l(1) refused only by blast
  moreover have "got r = None"
  proof (cases r)
    case (Inr p)
    obtain d' t' where p: "p = (d', t')" by fastforce
    with result Inr only have "d' = d" by auto
    with result Inr p l(1) refused show ?thesis by auto
  qed (simp add: got_def)
  ultimately show ?thesis
    using still keep [OF l(3)] unfolding token_lost_def by blast
qed

lemma boots_lost:
  assumes "flash_faithful E c" "held c (issued pairs) h" "token_lost E c h"
    and "\<And>build. build \<in> set builds \<Longrightarrow> HUB_TOKEN build = None \<and>
      (BUILD_DEVICE_ID build, BUILD_HUB_SECRET build) \<in> pairs"
  shows "ends E h (boots builds) (\<lambda>h' results. set (map got results) \<subseteq> {None})"
proof -
  let ?J = "\<lambda>h' rs. held c (issued pairs) h' \<and> token_lost E c h' \<and> set (map got rs) \<subseteq> {None}"
  have "ends E h (boots builds) ?J"
    unfolding boots_def
  proof (rule ends_for_each)
    fix build h' rs assume "build \<in> set builds" and J: "?J h' rs"
    with assms(4) have b: "HUB_TOKEN build = None" "(BUILD_DEVICE_ID build, BUILD_HUB_SECRET build) \<in> pairs" by auto
    from J have I: "held c (issued pairs) h'" and l: "token_lost E c h'" by auto
    show "ends E h' (do { r \<leftarrow> claim_hub_after_time_sync build; State_Monad.return (rs @ [r]) }) ?J"
    proof (rule ends_bind, rule ends_conseq [OF ends_claim_hub [OF assms(1) I b(2)]], rule ends_return)
      fix h'' r assume r: "provisioned E pairs build c h' h'' r"
      then have "held c (issued pairs) h''" by (simp add: provisioned_def)
      with lost_boot [OF b(1) l r] J show "?J h'' (rs @ [r])" by auto
    qed
  qed (use assms(2,3) in simp)
  then show ?thesis by (rule ends_conseq) blast
qed

lemma lost_between:
  assumes order: "claim_then_write c h (h @ pre @ ClaimRpc d s answer # mid @ rest)"
    and mid: "away jwt_at mid"
  shows "contents c (h @ pre @ ClaimRpc d s answer # mid) jwt_at = {None} \<and>
    identity (contents c (h @ pre @ ClaimRpc d s answer # mid)) (d, s)"
proof -
  from order have now: "contents c (h @ pre) jwt_at = {None}" "identity (contents c (h @ pre)) (d, s)"
    and "token_only (mid @ rest)"
    unfolding claim_then_write_def by blast+
  with mid have "away l (ClaimRpc d s answer # mid)" if "l \<in> {jwt_at, device_id_at, hub_secret_at}" for l
    using that by (auto simp: token_only_def)
  then have "contents c ((h @ pre) @ ClaimRpc d s answer # mid) l = contents c (h @ pre) l"
    if "l \<in> {jwt_at, device_id_at, hub_secret_at}" for l
    using that by (intro away_contents)
  with now show ?thesis by (simp del: contents_simps add: identity_def)
qed

text \<open>
  C36: as the code orders it, a token can be lost. When a claim is granted, the flash holds the pair
  claimed for and no token; if power is lost then, before the call that writes the token, no later
  claim gets credentials, whatever else works, until the user revokes the hub: the backend grants the token
  once, and the hub asks for the same id again.
\<close>

theorem lost_token_stays_lost:
  assumes "flash_faithful E c" and "held c (issued pairs) h"
    and "(BUILD_DEVICE_ID build, BUILD_HUB_SECRET build) \<in> pairs"
    and "\<And>b. b \<in> set builds \<Longrightarrow> HUB_TOKEN b = None \<and>
      (BUILD_DEVICE_ID b, BUILD_HUB_SECRET b) \<in> pairs"
    and "run_state (claim_hub_after_time_sync build) \<lparr>env_of = E, hist = h\<rparr> = (r, w)"
    and "hist w = h @ pre @ ClaimRpc d s (Inr t) # mid @ rest" and "away jwt_at mid"
    and "lost = h @ pre @ ClaimRpc d s (Inr t) # mid" and "unrevoked E lost d"
  shows "contents c lost jwt_at = {None} \<and> identity (contents c lost) (d, s) \<and>
    ends E lost (boots builds) (\<lambda>h' results. set (map got results) \<subseteq> {None})"
proof -
  have run: "P (hist w) r" if "ends E h (claim_hub_after_time_sync build) P" for P
    using that assms(5) by (auto simp: ends_def)
  have gone: "contents c lost jwt_at = {None} \<and> identity (contents c lost) (d, s)"
    using lost_between [OF run [OF ends_claim_order [OF assms(1-3)], unfolded assms(6)] assms(7)]
    unfolding assms(8) .
  have "held c (issued pairs) (hist w)"
    using run [OF ends_claim_hub [OF assms(1-3)]] unfolding provisioned_def by blast
  moreover have "hist w = lost @ rest" using assms(6,8) by simp
  ultimately have "held c (issued pairs) lost" by (simp add: held_append)
  with gone assms(9) boots_lost [OF assms(1) _ _ assms(4)] show ?thesis
    unfolding token_lost_def by blast
qed

text \<open>A backend that never hears of a revocation.\<close>

definition once_env :: env where
  "once_env = working_env [device_id_at \<mapsto> ''dev'', hub_secret_at \<mapsto> ''sec'']
     \<lparr>claim_at := \<lambda>h d s. if list_ex (\<lambda>(d', _, a). d' = d \<and> (case a of Inr _ \<Rightarrow> True | Inl _ \<Rightarrow> False)) (claims h)
        then Inl FailedPrecondition else Inr ''token''\<rparr>"

theorem lost_token_stays_lost_witness:
  "let events = hist (snd (run_state (claim_hub_after_time_sync sample_build) \<lparr>env_of = once_env, hist = []\<rparr>))
   in events ! 11 = ClaimRpc ''dev'' ''sec'' (Inr ''token'') \<and>
     ends once_env (take 12 events) (boots [sample_build]) (\<lambda>h' results. set (map got results) \<subseteq> {None})"
proof -
  let ?c = "holding [device_id_at \<mapsto> ''dev'', hub_secret_at \<mapsto> ''sec'']"
  let ?run = "run_state (claim_hub_after_time_sync sample_build) \<lparr>env_of = once_env, hist = []\<rparr>"
  let ?h = "hist (snd ?run)"
  have f: "flash_faithful once_env ?c"
    using working_faithful [of "[device_id_at \<mapsto> ''dev'', hub_secret_at \<mapsto> ''sec'']"]
    by (simp add: flash_faithful_def once_env_def)
  have I: "held ?c (issued {(''dev'', ''sec'')}) []"
    by (simp add: held_def issued_def holding_def)
  have at: "?h ! 11 = ClaimRpc ''dev'' ''sec'' (Inr ''token'')" and len: "11 < length ?h"
    by code_simp+
  from len have split: "?h = take 11 ?h @ ?h ! 11 # drop 12 ?h"
    using id_take_nth_drop [of 11 ?h] by simp
  then have cut: "take 12 ?h = [] @ take 11 ?h @ ClaimRpc ''dev'' ''sec'' (Inr ''token'') # []"
    using take_Suc_conv_app_nth [OF len] at by simp
  have granted: "list_ex (\<lambda>(d', _, a). d' = ''dev'' \<and> (case a of Inr _ \<Rightarrow> True | Inl _ \<Rightarrow> False)) (claims (take 12 ?h))"
    unfolding cut by simp
  have "unrevoked once_env (take 12 ?h) ''dev''"
    using granted unfolding unrevoked_def by (auto simp: once_env_def)
  from lost_token_stays_lost [OF f I _ _ _ _ _ cut this, of sample_build "[sample_build]" "fst ?run" "snd ?run" "drop 12 ?h"]
  show ?thesis
    using split at by (simp add: sample_build_def Let_def)
qed

end
