(* ===== verification/Wifi.thy ===== *)
theory Wifi
  imports Claim_Hub
begin

text \<open>
  The Wi-Fi station (\<open>src/wifi.rs\<close>): driver set-up and the connection with its bounded number of
  attempts. Log output is left out. The strings that go into the driver configuration have a bounded
  length there; whether one fits is a parameter (\<open>ssid_try_into\<close>, \<open>password_try_into\<close>).
\<close>

section \<open>The driver\<close>

definition wifi_init :: "unit res io" where
  "wifi_init =
     try_io (ask (\<lambda>E h. driver_at E h ''Peripherals::take'') (Driver ''Peripherals::take'')) (\<lambda>_.
     try_io (ask (\<lambda>E h. driver_at E h ''EspSystemEventLoop::take'') (Driver ''EspSystemEventLoop::take'')) (\<lambda>_.
     try_io (ask (\<lambda>E h. driver_at E h ''EspWifi::new'') (Driver ''EspWifi::new'')) (\<lambda>_.
     try_io (ask (\<lambda>E h. driver_at E h ''BlockingWifi::wrap'') (Driver ''BlockingWifi::wrap'')) (\<lambda>_.
     State_Monad.return (Inr ())))))"

definition wifi_ask :: "(wifi_env \<Rightarrow> history \<Rightarrow> 'r) \<Rightarrow> ('r \<Rightarrow> wifi_event) \<Rightarrow> 'r io" where
  "wifi_ask f ev = ask (\<lambda>E h. f (wifi_of E) h) (\<lambda>r. Wifi (ev r))"

lemma traced_wifi_ask [traced_intro]: "(\<And>r. Q [Wifi (ev r)] r) \<Longrightarrow> traced E (wifi_ask f ev) Q"
  unfolding wifi_ask_def by (rule traced_ask)

section \<open>Connecting\<close>

text \<open>
  The loop over the attempts. \<open>last_err\<close> is \<open>None\<close> before the first failure; unwrapping it then
  would panic.
\<close>

fun connect_attempts :: "u8 \<Rightarrow> nat list \<Rightarrow> error option \<Rightarrow> unit res rs io" where
  "connect_attempts max_attempts [] last_err = do {
     _ \<leftarrow> wifi_ask wifi_disconnect_at WifiDisconnect;
     _ \<leftarrow> wifi_ask wifi_stop_at WifiStop;
     State_Monad.return (case last_err of None \<Rightarrow> Panic | Some e \<Rightarrow> Val (Inl e))
   }"
| "connect_attempts max_attempts (attempt # attempts) last_err = do {
     r \<leftarrow> wifi_ask wifi_connect_at WifiConnect;
     case r of
       Inr _ \<Rightarrow> do {
         r \<leftarrow> try_io (wifi_ask wifi_netif_up_at WifiNetifUp) (\<lambda>_.
           try_io (wifi_ask wifi_ip_info_at WifiIpInfo) (\<lambda>_. State_Monad.return (Inr ())));
         State_Monad.return (Val r)
       }
     | Inl e \<Rightarrow> do {
         _ \<leftarrow> wifi_ask wifi_disconnect_at WifiDisconnect;
         _ \<leftarrow> (if attempt < unat max_attempts then emit (SleepMs 3000) else State_Monad.return ());
         connect_attempts max_attempts attempts (Some e)
       }
   }"

text \<open>\<open>m?\<close> where what follows may panic.\<close>

definition try_rs :: "'a res io \<Rightarrow> ('a \<Rightarrow> 'b res rs io) \<Rightarrow> 'b res rs io" where
  "try_rs m f = do {
     r \<leftarrow> m;
     case r of Inl e \<Rightarrow> State_Monad.return (Val (Inl e)) | Inr a \<Rightarrow> f a
   }"

lemma traced_try_rs [traced_intro]:
  assumes "traced E m (\<lambda>tr r. case r of Inl e \<Rightarrow> Q tr (Val (Inl e))
      | Inr a \<Rightarrow> traced E (f a) (\<lambda>tr' r'. Q (tr @ tr') r'))"
  shows "traced E (try_rs m f) Q"
  unfolding try_rs_def
  by (rule traced_bind, rule traced_conseq [OF assms])
    (auto intro!: traced_intro split: sum.splits)

definition connect_with_attempts :: "string \<Rightarrow> string \<Rightarrow> u8 \<Rightarrow> unit res rs io" where
  "connect_with_attempts ssid password max_attempts =
     try_rs (library (\<lambda>E. ssid_try_into (wifi_of E) ssid)) (\<lambda>_.
     try_rs (library (\<lambda>E. password_try_into (wifi_of E) password)) (\<lambda>_.
     try_rs (wifi_ask (\<lambda>W h. wifi_set_configuration_at W h ssid password) (WifiSetConfiguration ssid password)) (\<lambda>_.
     try_rs (wifi_ask wifi_start_at WifiStart) (\<lambda>_.
     try_rs (wifi_ask wifi_scan_at WifiScan) (\<lambda>ap_infos.
     let found = list_ex (\<lambda>ap. ap = ssid) ap_infos in
     if \<not> found then do {
       _ \<leftarrow> wifi_ask wifi_disconnect_at WifiDisconnect;
       _ \<leftarrow> wifi_ask wifi_stop_at WifiStop;
       State_Monad.return (Val (Inl (SsidNotFound ssid)))
     }
     else connect_attempts max_attempts [1..<Suc (unat max_attempts)] None)))))"

definition wifi_connect :: "string \<Rightarrow> string \<Rightarrow> unit res rs io" where
  "wifi_connect ssid password = connect_with_attempts ssid password 5"

definition connect_for_provisioning :: "string \<Rightarrow> string \<Rightarrow> unit res rs io" where
  "connect_for_provisioning ssid password = connect_with_attempts ssid password 1"

section \<open>The power state\<close>

text \<open>Whether the driver may be on: only a stop that succeeded turns it off.\<close>

fun wifi_power :: "event \<Rightarrow> bool \<Rightarrow> bool" where
  "wifi_power (Wifi (WifiStart (Inr _))) on = True"
| "wifi_power (Wifi (WifiStop (Inr _))) on = False"
| "wifi_power _ on = on"

definition powered :: "bool \<Rightarrow> history \<Rightarrow> bool" where
  "powered on tr = fold wifi_power tr on"

lemma powered_simps [simp]:
  "powered on [] = on" "powered on (e # tr) = powered (wifi_power e on) tr"
  "powered on (a @ b) = powered (powered on a) b"
  by (simp_all add: powered_def)

fun is_connect :: "event \<Rightarrow> bool" where
  "is_connect (Wifi (WifiConnect _)) = True"
| "is_connect _ = False"

text \<open>
  A connection: the configuration named the network, the scan saw it, and the driver connected
  and got an address last.
\<close>

definition joined :: "string \<Rightarrow> string \<Rightarrow> history \<Rightarrow> bool" where
  "joined ssid password tr \<longleftrightarrow> (\<exists>aps pre. ssid \<in> set aps \<and>
     tr = [Wifi (WifiSetConfiguration ssid password (Inr ())), Wifi (WifiStart (Inr ())), Wifi (WifiScan (Inr aps))] @
       pre @ [Wifi (WifiConnect (Inr ())), Wifi (WifiNetifUp (Inr ())), Wifi (WifiIpInfo (Inr ()))])"

text \<open>
  The calls whose error leaves the driver started: three whose error is passed on, and the stop itself, whose
  error the code ignores.
\<close>

fun leaves_on :: "event \<Rightarrow> bool" where
  "leaves_on (Wifi (WifiScan (Inl _))) = True"
| "leaves_on (Wifi (WifiNetifUp (Inl _))) = True"
| "leaves_on (Wifi (WifiIpInfo (Inl _))) = True"
| "leaves_on (Wifi (WifiStop (Inl _))) = True"
| "leaves_on _ = False"


definition stuck_on :: "history \<Rightarrow> bool" where
  "stuck_on tr \<longleftrightarrow> tr \<noteq> [] \<and> leaves_on (last tr)"

lemma stuck_on_simps [simp]:
  "\<not> stuck_on []" "stuck_on (tr @ [e]) = leaves_on e" "stuck_on [e] = leaves_on e"
  "stuck_on (e # e' # tr) = stuck_on (e' # tr)"
  by (simp_all add: stuck_on_def)

lemma stuck_on_append: "b \<noteq> [] \<Longrightarrow> stuck_on (a @ b) = stuck_on b"
  by (simp add: stuck_on_def)

lemma stop_power [simp]: "wifi_power (Wifi (WifiStop t)) on \<longleftrightarrow> on \<and> leaves_on (Wifi (WifiStop t))"
  by (cases t) simp_all

text \<open>What a run of the loop leaves.\<close>

definition attempted :: "nat \<Rightarrow> nat list \<Rightarrow> error option \<Rightarrow> history \<Rightarrow> unit res rs \<Rightarrow> bool" where
  "attempted n xs last_err tr r \<longleftrightarrow> tr \<noteq> [] \<and>
     count is_connect tr \<le> length xs \<and>
     sum_list (map sleeps tr) \<le> 3000 * length (filter (\<lambda>a. a < n) xs) \<and>
     (case r of
        Panic \<Rightarrow> xs = [] \<and> last_err = None
      | Val (Inr _) \<Rightarrow> (\<exists>pre. tr = pre @ [Wifi (WifiConnect (Inr ())), Wifi (WifiNetifUp (Inr ())), Wifi (WifiIpInfo (Inr ()))])
      | Val (Inl e) \<Rightarrow> powered True tr = stuck_on tr \<and> (\<not> stuck_on tr \<longrightarrow> count is_connect tr = length xs))"

lemma traced_get_address:
  assumes "\<And>e. Q [Wifi (WifiNetifUp (Inl e))] (Inl e)"
    and "\<And>e. Q [Wifi (WifiNetifUp (Inr ())), Wifi (WifiIpInfo (Inl e))] (Inl e)"
    and "Q [Wifi (WifiNetifUp (Inr ())), Wifi (WifiIpInfo (Inr ()))] (Inr ())"
  shows "traced E (try_io (wifi_ask wifi_netif_up_at WifiNetifUp) (\<lambda>_.
      try_io (wifi_ask wifi_ip_info_at WifiIpInfo) (\<lambda>_. State_Monad.return (Inr ())))) Q"
proof (rule traced_try, rule traced_wifi_ask)
  fix up :: "unit res"
  have "traced E (wifi_ask wifi_ip_info_at WifiIpInfo)
      (\<lambda>tr r. case r of Inl e \<Rightarrow> Q ([Wifi (WifiNetifUp (Inr ()))] @ tr) (Inl e)
        | Inr _ \<Rightarrow> traced E (State_Monad.return (Inr ())) (\<lambda>tr' r'. Q ([Wifi (WifiNetifUp (Inr ()))] @ tr @ tr') r'))"
    by (rule traced_wifi_ask) (auto intro: assms traced_return split: sum.splits)
  then show "case up of Inl e \<Rightarrow> Q [Wifi (WifiNetifUp up)] (Inl e)
    | Inr _ \<Rightarrow> traced E (try_io (wifi_ask wifi_ip_info_at WifiIpInfo) (\<lambda>_. State_Monad.return (Inr ())))
        (\<lambda>tr' r'. Q ([Wifi (WifiNetifUp up)] @ tr') r')"
    by (auto intro!: traced_try assms(1) split: sum.splits)
qed

lemma traced_connect_attempts:
  "traced E (connect_attempts m xs last_err) (attempted (unat m) xs last_err)"
proof (induction xs arbitrary: last_err)
  case Nil
  then show ?case
    by (simp, intro traced_intro) (auto simp: attempted_def split: option.splits)
next
  case (Cons x xs)
  have retry: "attempted (unat m) (x # xs) last_err
      (Wifi (WifiConnect (Inl e)) # Wifi (WifiDisconnect d) # pause @ tr) r"
    if "attempted (unat m) xs (Some e) tr r"
      "pause = (if x < unat m then [SleepMs 3000] else [])" for e d pause tr r
  proof -
    have ne: "tr \<noteq> []" using that(1) by (simp add: attempted_def)
    then have s: "stuck_on (a # b # pause @ tr) = stuck_on tr" for a b
      using stuck_on_append [OF ne, of "a # b # pause"] by simp
    have "powered True pause" using that(2) by simp
    with that ne s show ?thesis
      by (cases r) (auto simp: attempted_def split: sum.splits)
  qed
  show ?case
    unfolding connect_attempts.simps
    by (intro traced_bind traced_wifi_ask traced_case_sum traced_get_address traced_return traced_if traced_emit)
      (auto simp: attempted_def [of _ _ _ _ "Val _"] intro!: traced_conseq [OF Cons.IH] traced_return
        intro: retry [of _ _ _ "[]", simplified] retry [of _ _ _ "[SleepMs 3000]", simplified])
qed


section \<open>Outcome\<close>

definition wifi_outcome :: "string \<Rightarrow> string \<Rightarrow> nat \<Rightarrow> history \<Rightarrow> unit res rs \<Rightarrow> bool" where
  "wifi_outcome ssid password n tr r \<longleftrightarrow>
     count is_connect tr \<le> n \<and> sum_list (map sleeps tr) \<le> 3000 * (n - 1) \<and>
     (case r of
        Panic \<Rightarrow> False
      | Val (Inr _) \<Rightarrow> joined ssid password tr
      | Val (Inl e) \<Rightarrow> powered False tr = stuck_on tr)"

lemma pauses_between: "length (filter (\<lambda>a. a < n) [Suc 0..<Suc n]) = n - 1"
proof (cases n)
  case (Suc k)
  have "filter (\<lambda>a. a < n) [Suc 0..<n] = [Suc 0..<n]" by (rule filter_True) simp
  with Suc show ?thesis by simp
qed simp

lemma wifi_outcome_attempted:
  assumes "attempted n [1..<Suc n] None tr r" "n \<noteq> 0" "ssid \<in> set aps"
  shows "wifi_outcome ssid password n
    (Wifi (WifiSetConfiguration ssid password (Inr ())) # Wifi (WifiStart (Inr ())) # Wifi (WifiScan (Inr aps)) # tr) r"
proof -
  have ne: "tr \<noteq> []" using assms(1) by (simp add: attempted_def)
  have "stuck_on (a # b # c # tr) = stuck_on tr" for a b c
    using stuck_on_append [OF ne, of "[a, b, c]"] by simp
  moreover have "joined ssid password (Wifi (WifiSetConfiguration ssid password (Inr ())) # Wifi (WifiStart (Inr ())) #
      Wifi (WifiScan (Inr aps)) # pre @ [Wifi (WifiConnect (Inr ())), Wifi (WifiNetifUp (Inr ())), Wifi (WifiIpInfo (Inr ()))])"
    for pre using assms(3) unfolding joined_def by auto
  ultimately show ?thesis
    using assms(1,2)
    by (cases r) (auto simp: attempted_def wifi_outcome_def pauses_between simp del: upt_Suc split: sum.splits)
qed

lemma wifi_outcome_early:
  "wifi_outcome ssid password n [] (Val (Inl e))"
  "wifi_outcome ssid password n [Wifi (WifiSetConfiguration s p (Inl e))] (Val (Inl e))"
  "wifi_outcome ssid password n [Wifi (WifiSetConfiguration s p (Inr ())), Wifi (WifiStart (Inl e))] (Val (Inl e))"
  "wifi_outcome ssid password n [Wifi (WifiSetConfiguration s p (Inr ())), Wifi (WifiStart (Inr ())),
     Wifi (WifiScan (Inl e))] (Val (Inl e))"
  "wifi_outcome ssid password n [Wifi (WifiSetConfiguration s p (Inr ())), Wifi (WifiStart (Inr ())),
     Wifi (WifiScan (Inr aps)), Wifi (WifiDisconnect d), Wifi (WifiStop t)] (Val (Inl e))"
  by (simp_all add: wifi_outcome_def)

lemma traced_found:
  assumes "ssid \<in> set aps" "0 < unat m"
  shows "traced E (connect_attempts m [Suc 0..<Suc (unat m)] None) (\<lambda>tr. wifi_outcome ssid password (unat m)
    (Wifi (WifiSetConfiguration ssid password (Inr ())) # Wifi (WifiStart (Inr ())) # Wifi (WifiScan (Inr aps)) # tr))"
  by (rule traced_conseq [OF traced_connect_attempts])
    (use assms wifi_outcome_attempted [of "unat m"] in auto)

lemma traced_connect_with_attempts:
  assumes "m \<noteq> 0"
  shows "traced E (connect_with_attempts ssid password m) (wifi_outcome ssid password (unat m))"
proof -
  have "unat m \<noteq> 0" using assms by (simp add: unat_eq_zero)
  then show ?thesis
    unfolding connect_with_attempts_def Let_def
    by (intro traced_intro)
      (auto simp: list_ex_iff wifi_outcome_early simp del: upt_Suc split: sum.splits
        intro!: traced_intro traced_found)
qed


end
