(* ===== verification/Config.thy ===== *)
theory Config
  imports Hub_Prelude
begin

text \<open>
  The constants of \<open>src/config.rs\<close>: advertisement markers, GATT UUIDs, and the layouts of the
  motor-command and motor-result payloads. Lengths, offsets and versions keep the names of the
  source.
\<close>

definition COMPANY_ID :: u16 where "COMPANY_ID = 0x1234"
definition MAGIC_MARKER :: bytes where "MAGIC_MARKER = bytes_of_str ''HH-PROBE''"
definition SETUP_MARKER :: bytes where "SETUP_MARKER = bytes_of_str ''HH-SETUP''"
definition SETUP_PROBE_NAME :: string where "SETUP_PROBE_NAME = ''HH-PROBE-SETUP''"
definition LEGACY_TEST_MARKER :: bytes where "LEGACY_TEST_MARKER = bytes_of_str ''TEST''"

definition ENVIRONMENTAL_SENSING_SERVICE_UUID :: string where
  "ENVIRONMENTAL_SENSING_SERVICE_UUID = ''0000181a-0000-1000-8000-00805f9b34fb''"
definition AIR_TEMP_CHAR_UUID :: string where
  "AIR_TEMP_CHAR_UUID = ''00002a6e-0000-1000-8000-00805f9b34fb''"
definition AIR_PRESSURE_CHAR_UUID :: string where
  "AIR_PRESSURE_CHAR_UUID = ''00002a6d-0000-1000-8000-00805f9b34fb''"
definition AIR_HUM_CHAR_UUID :: string where
  "AIR_HUM_CHAR_UUID = ''00002a6f-0000-1000-8000-00805f9b34fb''"
definition PROBE_UUID_CHAR_UUID :: string where
  "PROBE_UUID_CHAR_UUID = ''12340002-0000-1000-8000-00805f9b34fb''"
definition SOIL_TEMP_CHAR_UUID :: string where
  "SOIL_TEMP_CHAR_UUID = ''12340003-0000-1000-8000-00805f9b34fb''"
definition SOIL_HUM_CHAR_UUID :: string where
  "SOIL_HUM_CHAR_UUID = ''12340004-0000-1000-8000-00805f9b34fb''"
definition PROBE_SETUP_CONFIRM_CHAR_UUID :: string where
  "PROBE_SETUP_CONFIRM_CHAR_UUID = ''12340005-0000-1000-8000-00805f9b34fb''"
definition MOTOR_COMMAND_CHAR_UUID :: string where
  "MOTOR_COMMAND_CHAR_UUID = ''12340006-0000-1000-8000-00805f9b34fb''"
definition MOTOR_RESULT_CHAR_UUID :: string where
  "MOTOR_RESULT_CHAR_UUID = ''12340007-0000-1000-8000-00805f9b34fb''"
definition PROBE_SETUP_CONFIRM_MAGIC :: bytes where
  "PROBE_SETUP_CONFIRM_MAGIC = bytes_of_str ''HHSETUP1''"

definition MOTOR_COMMAND_PAYLOAD_MAGIC :: bytes where
  "MOTOR_COMMAND_PAYLOAD_MAGIC = bytes_of_str ''HHMC''"
definition MOTOR_COMMAND_PAYLOAD_VERSION :: u8 where "MOTOR_COMMAND_PAYLOAD_VERSION = 1"
definition MOTOR_COMMAND_ACTION_STOP :: u8 where "MOTOR_COMMAND_ACTION_STOP = 0"
definition MOTOR_COMMAND_ACTION_RUN_FOR_DURATION :: u8 where
  "MOTOR_COMMAND_ACTION_RUN_FOR_DURATION = 1"
definition MOTOR_COMMAND_PAYLOAD_MAGIC_OFFSET :: nat where
  "MOTOR_COMMAND_PAYLOAD_MAGIC_OFFSET = 0"
definition MOTOR_COMMAND_PAYLOAD_VERSION_OFFSET :: nat where
  "MOTOR_COMMAND_PAYLOAD_VERSION_OFFSET = 4"
definition MOTOR_COMMAND_PAYLOAD_ACTION_OFFSET :: nat where
  "MOTOR_COMMAND_PAYLOAD_ACTION_OFFSET = 5"
definition MOTOR_COMMAND_PAYLOAD_COMMAND_ID_OFFSET :: nat where
  "MOTOR_COMMAND_PAYLOAD_COMMAND_ID_OFFSET = 6"
definition MOTOR_COMMAND_PAYLOAD_COMMAND_ID_LEN :: nat where
  "MOTOR_COMMAND_PAYLOAD_COMMAND_ID_LEN = 16"
definition MOTOR_COMMAND_PAYLOAD_DURATION_MS_OFFSET :: nat where
  "MOTOR_COMMAND_PAYLOAD_DURATION_MS_OFFSET = 22"
definition MOTOR_COMMAND_PAYLOAD_EXPIRY_MS_OFFSET :: nat where
  "MOTOR_COMMAND_PAYLOAD_EXPIRY_MS_OFFSET = 26"
definition MOTOR_COMMAND_PAYLOAD_LEN :: nat where "MOTOR_COMMAND_PAYLOAD_LEN = 30"
definition MOTOR_COMMAND_MAX_DURATION_MS :: u32 where "MOTOR_COMMAND_MAX_DURATION_MS = 5000"
definition MOTOR_COMMAND_DEFAULT_EXPIRY_MS :: u32 where
  "MOTOR_COMMAND_DEFAULT_EXPIRY_MS = 300000"
definition MOTOR_COMMAND_DUPLICATE_RETENTION_MS :: u32 where
  "MOTOR_COMMAND_DUPLICATE_RETENTION_MS = MOTOR_COMMAND_DEFAULT_EXPIRY_MS"

definition MOTOR_RESULT_PAYLOAD_MAGIC :: bytes where
  "MOTOR_RESULT_PAYLOAD_MAGIC = bytes_of_str ''HHMR''"
definition MOTOR_RESULT_PAYLOAD_VERSION :: u8 where "MOTOR_RESULT_PAYLOAD_VERSION = 1"
definition MOTOR_RESULT_PAYLOAD_MAGIC_OFFSET :: nat where
  "MOTOR_RESULT_PAYLOAD_MAGIC_OFFSET = 0"
definition MOTOR_RESULT_PAYLOAD_VERSION_OFFSET :: nat where
  "MOTOR_RESULT_PAYLOAD_VERSION_OFFSET = 4"
definition MOTOR_RESULT_PAYLOAD_STATUS_OFFSET :: nat where
  "MOTOR_RESULT_PAYLOAD_STATUS_OFFSET = 5"
definition MOTOR_RESULT_PAYLOAD_REASON_OFFSET :: nat where
  "MOTOR_RESULT_PAYLOAD_REASON_OFFSET = 6"
definition MOTOR_RESULT_PAYLOAD_COMMAND_ID_OFFSET :: nat where
  "MOTOR_RESULT_PAYLOAD_COMMAND_ID_OFFSET = 7"
definition MOTOR_RESULT_PAYLOAD_LEN :: nat where "MOTOR_RESULT_PAYLOAD_LEN = 23"

definition MOTOR_COMMAND_POLL_LEASE_DURATION_MS :: i32 where
  "MOTOR_COMMAND_POLL_LEASE_DURATION_MS = 300000"
definition MOTOR_COMMAND_POLL_BATCH_SIZE :: i32 where "MOTOR_COMMAND_POLL_BATCH_SIZE = 1"

text \<open>The payload constants, unfolded together in the layout proofs.\<close>

lemmas motor_command_layout =
  MOTOR_COMMAND_PAYLOAD_MAGIC_OFFSET_def MOTOR_COMMAND_PAYLOAD_VERSION_OFFSET_def
  MOTOR_COMMAND_PAYLOAD_ACTION_OFFSET_def MOTOR_COMMAND_PAYLOAD_COMMAND_ID_OFFSET_def
  MOTOR_COMMAND_PAYLOAD_COMMAND_ID_LEN_def MOTOR_COMMAND_PAYLOAD_DURATION_MS_OFFSET_def
  MOTOR_COMMAND_PAYLOAD_EXPIRY_MS_OFFSET_def MOTOR_COMMAND_PAYLOAD_LEN_def

lemmas motor_result_layout =
  MOTOR_RESULT_PAYLOAD_MAGIC_OFFSET_def MOTOR_RESULT_PAYLOAD_VERSION_OFFSET_def
  MOTOR_RESULT_PAYLOAD_STATUS_OFFSET_def MOTOR_RESULT_PAYLOAD_REASON_OFFSET_def
  MOTOR_RESULT_PAYLOAD_COMMAND_ID_OFFSET_def MOTOR_RESULT_PAYLOAD_LEN_def
  MOTOR_COMMAND_PAYLOAD_COMMAND_ID_LEN_def

lemmas motor_uuids =
  MOTOR_COMMAND_CHAR_UUID_def MOTOR_RESULT_CHAR_UUID_def PROBE_SETUP_CONFIRM_CHAR_UUID_def
  AIR_TEMP_CHAR_UUID_def AIR_PRESSURE_CHAR_UUID_def AIR_HUM_CHAR_UUID_def
  SOIL_TEMP_CHAR_UUID_def SOIL_HUM_CHAR_UUID_def PROBE_UUID_CHAR_UUID_def

lemma length_magics [simp]:
  "length MOTOR_COMMAND_PAYLOAD_MAGIC = 4" "length MOTOR_RESULT_PAYLOAD_MAGIC = 4"
  "length MAGIC_MARKER = 8" "length SETUP_MARKER = 8" "length LEGACY_TEST_MARKER = 4"
  by (simp_all add: MOTOR_COMMAND_PAYLOAD_MAGIC_def MOTOR_RESULT_PAYLOAD_MAGIC_def
      MAGIC_MARKER_def SETUP_MARKER_def LEGACY_TEST_MARKER_def)

end
