(* ===== verification/Time_Source.thy ===== *)
theory Time_Source
  imports World
begin

text \<open>
  Wall-clock readings (\<open>src/time.rs\<close> and \<open>unix_now_ms\<close> of \<open>src/polling.rs\<close>): milliseconds since
  1970 as an \<open>i64\<close>, 0 when the clock stands before 1970. \<open>as_millis() as i64\<close> keeps the low 64 bits.
\<close>

definition clock_ms :: "clock_reading \<Rightarrow> i64" where
  "clock_ms t = (case t of BeforeEpoch \<Rightarrow> 0 | SinceEpochMs n \<Rightarrow> word_of_nat n)"

definition get_unix_now_ms :: "i64 io" where
  "get_unix_now_ms = do {
     t \<leftarrow> ask clock_at ClockRead;
     State_Monad.return (clock_ms t)
   }"

definition unix_now_ms :: "i64 io" where
  "unix_now_ms = do {
     t \<leftarrow> ask clock_at ClockRead;
     State_Monad.return (case t of SinceEpochMs n \<Rightarrow> word_of_nat n | BeforeEpoch \<Rightarrow> 0)
   }"

lemma unix_now_ms_eq: "unix_now_ms = get_unix_now_ms"
proof -
  have "(case t of SinceEpochMs n \<Rightarrow> word_of_nat n | BeforeEpoch \<Rightarrow> 0) = clock_ms t" for t
    by (cases t) (simp_all add: clock_ms_def)
  then show ?thesis by (simp add: unix_now_ms_def get_unix_now_ms_def)
qed

lemma clock_ms_Ms: "n < 2 ^ 63 \<Longrightarrow> sint (clock_ms (SinceEpochMs n)) = int n"
  using sint_of_int_i64 [of "int n"] by (simp add: clock_ms_def i64_min_def i64_max_def)

lemma traced_get_unix_now_ms [traced_intro]:
  "(\<And>t. Q [ClockRead t] (clock_ms t)) \<Longrightarrow> traced E get_unix_now_ms Q"
  unfolding get_unix_now_ms_def by (intro traced_intro) simp

lemma traced_unix_now_ms [traced_intro]:
  "(\<And>t. Q [ClockRead t] (clock_ms t)) \<Longrightarrow> traced E unix_now_ms Q"
  unfolding unix_now_ms_eq by (rule traced_get_unix_now_ms)

lemma run_get_unix_now_ms:
  "run_state get_unix_now_ms w =
     (clock_ms (clock_at (env_of w) (hist w)),
      w\<lparr>hist := hist w @ [ClockRead (clock_at (env_of w) (hist w))]\<rparr>)"
  by (simp add: get_unix_now_ms_def)

end
