(* ===== verification/Dedup.thy ===== *)
theory Dedup
  imports Config Time_Source
begin

text \<open>
  \<open>CommandDedupSet\<close> of \<open>src/polling.rs\<close>: which command ids are being processed and which were
  processed recently. The methods read the clock; \<open>prune_at\<close>, \<open>begin_at\<close> and \<open>finish_at\<close> are their
  bodies with the readings as arguments.

  The contract the poller relies on is the locale \<open>admission\<close>: an id is admitted (\<open>New\<close>) only
  while it is neither running nor remembered as done. Its lemmas, over any sequence of calls,
  are the at-most-once guarantee; the set of this file is an interpretation.
\<close>

section \<open>The set\<close>

record dedup =
  processing :: "string set"
  processed :: "string \<rightharpoonup> i64"

definition empty_dedup :: dedup where
  "empty_dedup = \<lparr>processing = {}, processed = Map.empty\<rparr>"

datatype dedup_begin = New | AlreadyProcessing | AlreadyProcessed

definition retention_ms :: i64 where
  "retention_ms = ucast MOTOR_COMMAND_DUPLICATE_RETENTION_MS"

text \<open>\<open>now.saturating_sub(*seen_at) <= retention\<close>.\<close>

definition retained :: "i64 \<Rightarrow> i64 \<Rightarrow> bool" where
  "retained now seen_at \<longleftrightarrow> sint (i64_saturating_sub now seen_at) \<le> sint retention_ms"

definition prune_at :: "i64 \<Rightarrow> dedup \<Rightarrow> dedup" where
  "prune_at now d = d\<lparr>processed := (\<lambda>k. case processed d k of
      None \<Rightarrow> None
    | Some seen_at \<Rightarrow> if retained now seen_at then Some seen_at else None)\<rparr>"

definition begin_at :: "i64 \<Rightarrow> string \<Rightarrow> dedup \<Rightarrow> dedup_begin \<times> dedup" where
  "begin_at now command_id d =
     (let d = prune_at now d in
      if processed d command_id \<noteq> None then (AlreadyProcessed, d)
      else if command_id \<in> processing d then (AlreadyProcessing, d)
      else (New, d\<lparr>processing := insert command_id (processing d)\<rparr>))"

definition finish_at :: "i64 \<Rightarrow> i64 \<Rightarrow> string \<Rightarrow> dedup \<Rightarrow> dedup" where
  "finish_at seen_at now command_id d =
     prune_at now (d\<lparr>processing := processing d - {command_id},
                     processed := (processed d)(command_id \<mapsto> seen_at)\<rparr>)"

definition prune :: "dedup \<Rightarrow> dedup io" where
  "prune d = do { now \<leftarrow> unix_now_ms; State_Monad.return (prune_at now d) }"

definition try_begin :: "string \<Rightarrow> dedup \<Rightarrow> (dedup_begin \<times> dedup) io" where
  "try_begin command_id d = do {
     d \<leftarrow> prune d;
     if processed d command_id \<noteq> None then State_Monad.return (AlreadyProcessed, d)
     else if command_id \<in> processing d then State_Monad.return (AlreadyProcessing, d)
     else State_Monad.return (New, d\<lparr>processing := insert command_id (processing d)\<rparr>)
   }"

definition finish_processed :: "string \<Rightarrow> dedup \<Rightarrow> dedup io" where
  "finish_processed command_id d = do {
     seen_at \<leftarrow> unix_now_ms;
     prune (d\<lparr>processing := processing d - {command_id},
              processed := (processed d)(command_id \<mapsto> seen_at)\<rparr>)
   }"

lemma try_begin_eq:
  "try_begin k d = do { now \<leftarrow> unix_now_ms; State_Monad.return (begin_at now k d) }"
  by (simp add: try_begin_def prune_def begin_at_def Let_def if_distrib [of State_Monad.return]
      cong: if_cong)

lemma traced_try_begin:
  "(\<And>t. Q [ClockRead t] (begin_at (clock_ms t) k d)) \<Longrightarrow> traced E (try_begin k d) Q"
  unfolding try_begin_eq by (intro traced_intro) simp

lemma traced_finish_processed:
  "(\<And>t u. Q [ClockRead t, ClockRead u] (finish_at (clock_ms t) (clock_ms u) k d)) \<Longrightarrow>
   traced E (finish_processed k d) Q"
  unfolding finish_processed_def prune_def
  by (intro traced_intro) (simp add: finish_at_def)

section \<open>The contract\<close>

datatype 'd call = Begin 'd string | Finish 'd 'd string

locale admission =
  fixes begin_op :: "'t \<Rightarrow> string \<Rightarrow> 'd \<Rightarrow> dedup_begin \<times> 'd"
    and finish_op :: "'t \<Rightarrow> 't \<Rightarrow> string \<Rightarrow> 'd \<Rightarrow> 'd"
    and running :: "'d \<Rightarrow> string \<Rightarrow> bool"
    and done_at :: "'d \<Rightarrow> string \<Rightarrow> 't option"
    and keeps :: "'t \<Rightarrow> 't \<Rightarrow> bool"
  assumes begin_result: "fst (begin_op now k d) =
      (if \<exists>t. done_at d k = Some t \<and> keeps now t then AlreadyProcessed
       else if running d k then AlreadyProcessing else New)"
    and begin_running: "running (snd (begin_op now k d)) j =
      (running d j \<or> j = k \<and> fst (begin_op now k d) = New)"
    and begin_done: "done_at (snd (begin_op now k d)) j =
      (case done_at d j of None \<Rightarrow> None | Some t \<Rightarrow> if keeps now t then Some t else None)"
    and finish_running: "running (finish_op seen now k d) j = (running d j \<and> j \<noteq> k)"
    and finish_done: "done_at (finish_op seen now k d) j =
      (case (if j = k then Some seen else done_at d j) of
         None \<Rightarrow> None | Some t \<Rightarrow> if keeps now t then Some t else None)"
begin

primrec step :: "'t call \<Rightarrow> 'd \<Rightarrow> 'd" where
  "step (Begin now k) d = snd (begin_op now k d)"
| "step (Finish seen now k) d = finish_op seen now k d"

primrec run :: "'t call list \<Rightarrow> 'd \<Rightarrow> 'd" where
  "run [] d = d"
| "run (c # cs) d = run cs (step c d)"

primrec finishes :: "string \<Rightarrow> 't call \<Rightarrow> bool" where
  "finishes k (Begin now j) = False"
| "finishes k (Finish seen now j) = (j = k)"

primrec call_time :: "'t call \<Rightarrow> 't" where
  "call_time (Begin now k) = now"
| "call_time (Finish seen now k) = now"

lemma running_step: "running d k \<Longrightarrow> \<not> finishes k c \<Longrightarrow> running (step c d) k"
  by (cases c) (simp_all add: begin_running finish_running)

lemma running_run: "running d k \<Longrightarrow> list_all (\<lambda>c. \<not> finishes k c) cs \<Longrightarrow> running (run cs d) k"
  by (induction cs arbitrary: d) (simp_all add: running_step)

text \<open>At most once: after an admission, no second one before the id is finished.\<close>

lemma admitted_once:
  assumes "fst (begin_op now k d) = New" "list_all (\<lambda>c. \<not> finishes k c) cs"
  shows "fst (begin_op later k (run cs (snd (begin_op now k d)))) \<noteq> New"
  using running_run [OF _ assms(2)] assms(1) by (simp add: begin_running begin_result)

lemma done_step:
  "done_at d k = Some t \<Longrightarrow> \<not> finishes k c \<Longrightarrow> keeps (call_time c) t \<Longrightarrow>
   done_at (step c d) k = Some t"
  by (cases c) (auto simp: begin_done finish_done)

lemma done_run:
  "done_at d k = Some t \<Longrightarrow> list_all (\<lambda>c. \<not> finishes k c \<and> keeps (call_time c) t) cs \<Longrightarrow>
   done_at (run cs d) k = Some t"
  by (induction cs arbitrary: d) (simp_all add: done_step)

text \<open>Nor while the finished id is remembered.\<close>

lemma remembered:
  assumes "list_all (\<lambda>c. \<not> finishes k c \<and> keeps (call_time c) seen) cs" "keeps now seen"
    and "keeps later seen"
  shows "fst (begin_op later k (run cs (finish_op seen now k d))) = AlreadyProcessed"
  using done_run [of "finish_op seen now k d" k seen cs] assms
  by (auto simp: begin_result finish_done)

text \<open>While it is remembered it is not running, so that once forgotten it is admitted again.\<close>

lemma idle_run:
  "\<not> running d k \<Longrightarrow> done_at d k = Some t \<Longrightarrow>
   list_all (\<lambda>c. \<not> finishes k c \<and> keeps (call_time c) t) cs \<Longrightarrow> \<not> running (run cs d) k"
proof (induction cs arbitrary: d)
  case Nil
  then show ?case by simp
next
  case (Cons c cs)
  then have "\<not> running (step c d) k"
    by (cases c) (auto simp: begin_running finish_running begin_result)
  with Cons show ?case by (simp add: done_step)
qed

lemma forgotten:
  assumes "list_all (\<lambda>c. \<not> finishes k c \<and> keeps (call_time c) seen) cs" "keeps now seen"
    and "\<not> keeps later seen"
  shows "fst (begin_op later k (run cs (finish_op seen now k d))) = New"
proof -
  let ?d = "finish_op seen now k d"
  have d: "\<not> running ?d k" "done_at ?d k = Some seen"
    using assms(2) by (auto simp: finish_running finish_done)
  with idle_run [OF d assms(1)] done_run [OF d(2) assms(1)] assms(3)
  show ?thesis by (simp add: begin_result)
qed

end

interpretation dd: admission begin_at finish_at "\<lambda>d k. k \<in> processing d" "\<lambda>d k. processed d k"
  retained
  by unfold_locales
    (auto simp: begin_at_def finish_at_def prune_at_def Let_def split: option.splits if_splits)

section \<open>Invariant\<close>

definition dedup_inv :: "dedup \<Rightarrow> bool" where
  "dedup_inv d \<longleftrightarrow> processing d \<inter> dom (processed d) = {}"

lemma dedup_inv_empty: "dedup_inv empty_dedup"
  by (simp add: dedup_inv_def empty_dedup_def)

lemma dedup_inv_prune: "dedup_inv d \<Longrightarrow> dedup_inv (prune_at now d)"
  by (auto simp: dedup_inv_def prune_at_def disjoint_iff split: option.splits if_splits)

lemma dedup_inv_begin: "dedup_inv d \<Longrightarrow> dedup_inv (snd (begin_at now k d))"
  by (auto simp: dedup_inv_def begin_at_def Let_def prune_at_def disjoint_iff
      split: option.splits if_splits)

lemma dedup_inv_finish: "dedup_inv d \<Longrightarrow> dedup_inv (finish_at seen now k d)"
  unfolding finish_at_def by (rule dedup_inv_prune) (auto simp: dedup_inv_def)

text \<open>After every call only ids seen within the retention time are remembered.\<close>

lemma remembered_within:
  "processed (finish_at seen now k d) j = Some t \<Longrightarrow> retained now t"
  "processed (snd (begin_at now k d)) j = Some t \<Longrightarrow> retained now t"
  by (auto simp: finish_at_def begin_at_def prune_at_def Let_def split: option.splits if_splits)

lemma retained_iff:
  assumes "0 \<le> sint now" "0 \<le> sint seen"
  shows "retained now seen \<longleftrightarrow> sint now - sint seen \<le> 300000"
proof -
  have "sint retention_ms = 300000"
    by (simp add: retention_ms_def MOTOR_COMMAND_DUPLICATE_RETENTION_MS_def
        MOTOR_COMMAND_DEFAULT_EXPIRY_MS_def)
  moreover have "sint now - sint seen \<le> i64_max" "i64_min \<le> sint now - sint seen"
    using assms sint_i64_range [of now] sint_i64_range [of seen]
    by (simp_all add: i64_max_def i64_min_def)
  ultimately show ?thesis by (simp add: retained_def sint_i64_saturating_sub)
qed

text \<open>
  C16: at most one admission. Once a command id has been answered \<open>New\<close>, whatever calls follow for
  other ids or for this one, it is not answered \<open>New\<close> again until it has been finished.
\<close>

theorem dedup_at_most_once:
  assumes "fst (begin_at now k d) = New" and "list_all (\<lambda>c. \<not> dd.finishes k c) calls"
  shows "fst (begin_at later k (dd.run calls (snd (begin_at now k d)))) \<noteq> New"
  using assms by (rule dd.admitted_once)

theorem dedup_at_most_once_witness:
  "fst (begin_at 9 ''a'' (dd.run [Begin 7 ''b'', Finish 8 8 ''b'']
     (snd (begin_at 5 ''a'' empty_dedup)))) \<noteq> New"
  by (rule dedup_at_most_once) (simp_all add: begin_at_def prune_at_def empty_dedup_def)

text \<open>
  C17: a finished command id is refused for exactly the retention time of 300000 ms after it was
  seen, counted on the hub's clock, however the set was used in between; then it is admitted again.
\<close>

theorem dedup_retention:
  assumes clock: "0 \<le> sint seen" "0 \<le> sint now" "sint now \<le> sint seen + 300000" "0 \<le> sint later"
    and calls: "list_all (\<lambda>c. \<not> dd.finishes k c \<and> 0 \<le> sint (dd.call_time c) \<and>
      sint (dd.call_time c) \<le> sint seen + 300000) calls"
  shows "fst (begin_at later k (dd.run calls (finish_at seen now k d))) =
    (if sint later \<le> sint seen + 300000 then AlreadyProcessed else New)"
proof -
  from calls clock(1) have "list_all (\<lambda>c. \<not> dd.finishes k c \<and> retained (dd.call_time c) seen) calls"
    by (auto simp: list_all_iff retained_iff)
  moreover have "retained now seen" using clock by (simp add: retained_iff)
  moreover have "retained later seen \<longleftrightarrow> sint later \<le> sint seen + 300000"
    using clock by (auto simp: retained_iff)
  ultimately show ?thesis using dd.remembered dd.forgotten by auto
qed

theorem dedup_retention_witness:
  "fst (begin_at 400000 ''a'' (dd.run [Begin 2000 ''a''] (finish_at 1000 1001 ''a'' empty_dedup))) = New"
  by (subst dedup_retention) simp_all

end
