(* ===== verification/Radio_Gate.thy ===== *)
theory Radio_Gate
  imports World
begin

text \<open>
  \<open>RadioMemoryGate\<close> (\<open>src/polling.rs\<close>) and \<open>run_with_radio_memory_gate\<close> (\<open>src/main.rs\<close>): one
  mutex that keeps radio use (BLE sessions and scans) and memory-hungry RPCs apart. The mutex is
  not re-entrant: a thread that locks it twice never returns. \<open>gate_run\<close> reads a trace and
  accepts it when the gate is locked only while free, released only while held, the radio and the
  network are used only while it is held, and the thread never sleeps on it.
\<close>

definition with_gate :: "'a io \<Rightarrow> 'a io" where
  "with_gate m = do {
     _ \<leftarrow> emit GateLock;
     r \<leftarrow> m;
     _ \<leftarrow> emit GateUnlock;
     State_Monad.return r
   }"

definition run_with_radio_memory_gate :: "'a io \<Rightarrow> 'a io" where
  "run_with_radio_memory_gate f = with_gate f"

fun needs_gate :: "event \<Rightarrow> bool" where
  "needs_gate (Dial _) = True"
| "needs_gate (Ready _) = True"
| "needs_gate (InsertRpc _ _ _) = True"
| "needs_gate (PullRpc _ _ _) = True"
| "needs_gate (AckRpc _ _ _) = True"
| "needs_gate (ScanRun _ _) = True"
| "needs_gate (BleConnect _ _) = True"
| "needs_gate BleDisconnect = True"
| "needs_gate (GetService _ _) = True"
| "needs_gate (GetCharacteristic _ _) = True"
| "needs_gate (ReadValue _ _) = True"
| "needs_gate (WriteValue _ _ _) = True"
| "needs_gate _ = False"

text \<open>One event, from held or free to held or free; \<open>None\<close> is a violation.\<close>

fun gate_step :: "event \<Rightarrow> bool \<Rightarrow> bool option" where
  "gate_step GateLock held = (if held then None else Some True)"
| "gate_step GateUnlock held = (if held then Some False else None)"
| "gate_step (SleepMs _) held = (if held then None else Some False)"
| "gate_step e held = (if needs_gate e \<and> \<not> held then None else Some held)"

definition gate_run :: "history \<Rightarrow> bool \<Rightarrow> bool option" where
  "gate_run = run_steps gate_step"

lemma gate_run_simps [simp]:
  "gate_run [] held = Some held"
  "gate_run (e # tr) held = Option.bind (gate_step e held) (gate_run tr)"
  by (simp_all add: gate_run_def)

definition gate_balanced :: "history \<Rightarrow> bool" where
  "gate_balanced tr \<longleftrightarrow> gate_run tr False = Some False"

definition gate_held :: "history \<Rightarrow> bool" where
  "gate_held tr \<longleftrightarrow> gate_run tr True = Some True"

lemma gate_run_append: "gate_run (a @ b) held = Option.bind (gate_run a held) (gate_run b)"
  by (simp add: gate_run_def run_steps_append)

interpretation free: trace_monoid gate_balanced
  by unfold_locales (simp_all add: gate_balanced_def gate_run_append)

interpretation held: trace_monoid gate_held
  by unfold_locales (simp_all add: gate_held_def gate_run_append)

lemma gate_balanced_lock:
  "gate_held tr \<Longrightarrow> gate_balanced (GateLock # tr @ [GateUnlock])"
  by (simp add: gate_balanced_def gate_held_def gate_run_append)

text \<open>What happens under the gate may use the radio; seen from outside it is balanced.\<close>

lemma traced_with_gate:
  assumes "traced E m (\<lambda>tr r. Q (GateLock # tr @ [GateUnlock]) r)"
  shows "traced E (with_gate m) Q"
  unfolding with_gate_def
  by (intro traced_intro, rule traced_conseq [OF assms]) (auto intro!: traced_intro)

lemma with_gate_balanced:
  assumes "traced E m (\<lambda>tr _. gate_held tr)"
  shows "traced E (with_gate m) (\<lambda>tr _. gate_balanced tr)"
  by (rule traced_with_gate, rule traced_conseq [OF assms]) (rule gate_balanced_lock)

lemma gate_held_Cons: "gate_step e True = Some True \<Longrightarrow> gate_held tr \<Longrightarrow> gate_held (e # tr)"
  by (simp add: gate_held_def)

lemma gate_balanced_Cons:
  "gate_step e False = Some False \<Longrightarrow> gate_balanced tr \<Longrightarrow> gate_balanced (e # tr)"
  by (simp add: gate_balanced_def)

end
