(* ===== verification/Hub_Client.thy ===== *)
theory Hub_Client
  imports Radio_Gate
begin

text \<open>
  The gRPC client of \<open>src/grpc.rs\<close>: connecting with a token, the interceptor that adds the
  \<open>authorization\<close> header, and the three calls. \<open>status as i32\<close> and \<open>reason_code as i32\<close> are the
  numbering of generated code, so requests keep the enumeration values.

  \<open>with_client\<close> is the shape shared by the three places that talk to the backend
  (\<open>pull_commands_once\<close>, \<open>ack_once\<close>, \<open>upload_reading_once\<close>): a runtime, and in it the radio gate, a
  fresh connection and one call.
\<close>

record hub_client =
  hc_authorization :: string

text \<open>\<open>format!("Bearer {}", token)\<close>.\<close>

definition bearer :: "string \<Rightarrow> string" where
  "bearer token = ''Bearer '' @ token"

definition connect_with_token :: "string \<Rightarrow> hub_client res io" where
  "connect_with_token token = do {
     channel \<leftarrow> ask dial_at Dial;
     case channel of
       Inl e \<Rightarrow> State_Monad.return (Inl e)
     | Inr _ \<Rightarrow> do {
         metadata \<leftarrow> library (\<lambda>E. bearer_metadata E (bearer token));
         case metadata of
           Inl e \<Rightarrow> State_Monad.return (Inl e)
         | Inr _ \<Rightarrow> State_Monad.return (Inr \<lparr>hc_authorization = bearer token\<rparr>)
       }
   }"

text \<open>\<open>ready()\<close>, then the call; \<open>AuthInterceptor::call\<close> puts the header on the request.\<close>

definition unary ::
  "hub_client \<Rightarrow> (env \<Rightarrow> history \<Rightarrow> 'resp res) \<Rightarrow> (string \<Rightarrow> 'resp res \<Rightarrow> event) \<Rightarrow> 'resp res io" where
  "unary client answer ev = do {
     ready \<leftarrow> ask ready_at Ready;
     case ready of
       Inl e \<Rightarrow> State_Monad.return (Inl (NotReady e))
     | Inr _ \<Rightarrow> ask answer (ev (hc_authorization client))
   }"

definition send_data :: "hub_client \<Rightarrow> insert_request \<Rightarrow> unit res io" where
  "send_data client data = do {
     resp \<leftarrow> unary client (\<lambda>E h. insert_at E h data) (\<lambda>a. InsertRpc a data);
     case resp of
       Inl e \<Rightarrow> State_Monad.return (Inl e)
     | Inr resp \<Rightarrow>
         if \<not> is_success resp then State_Monad.return (Inl (ServerRejected (is_message resp)))
         else State_Monad.return (Inr ())
   }"

definition pull_pending_motor_commands ::
  "hub_client \<Rightarrow> string \<Rightarrow> i32 \<Rightarrow> i32 \<Rightarrow> motor_command list res io" where
  "pull_pending_motor_commands client hub_id max_commands lease_duration_ms =
     (let request = \<lparr>pr_hub_id = hub_id, pr_max_commands = max_commands,
        pr_lease_duration_ms = lease_duration_ms\<rparr>
      in unary client (\<lambda>E h. pull_at E h request) (\<lambda>a. PullRpc a request))"

definition ack_motor_command_event ::
  "hub_client \<Rightarrow> string \<Rightarrow> string \<Rightarrow> string \<Rightarrow> motor_status \<Rightarrow> motor_reason \<Rightarrow> string \<Rightarrow>
   motor_command option res io" where
  "ack_motor_command_event client command_id hub_id node_id status reason_code reason_message =
     (let request = \<lparr>ar_command_id = command_id, ar_hub_id = hub_id, ar_node_id = node_id,
        ar_status = status, ar_reason_code = reason_code, ar_reason_message = reason_message\<rparr>
      in unary client (\<lambda>E h. ack_at E h request) (\<lambda>a. AckRpc a request))"

definition with_client :: "string \<Rightarrow> (hub_client \<Rightarrow> 'a res io) \<Rightarrow> 'a res io" where
  "with_client jwt call = do {
     rt \<leftarrow> ask runtime_at RuntimeBuild;
     case rt of
       Inl e \<Rightarrow> State_Monad.return (Inl e)
     | Inr _ \<Rightarrow> with_gate (do {
         client \<leftarrow> connect_with_token jwt;
         case client of
           Inl e \<Rightarrow> State_Monad.return (Inl e)
         | Inr client \<Rightarrow> call client
       })
   }"

section \<open>Traces of the client\<close>

text \<open>
  The trace of one exchange with the backend: it fails before the call is made, with no call in
  the trace, or the call is made once, with the header for the token, under the gate.
\<close>

definition failed_exchange :: "history \<Rightarrow> bool" where
  "failed_exchange tr \<longleftrightarrow>
     (\<exists>e. tr = [RuntimeBuild (Inl e)]) \<or>
     (\<exists>e. tr = [RuntimeBuild (Inr ()), GateLock, Dial (Inl e), GateUnlock]) \<or>
     tr = [RuntimeBuild (Inr ()), GateLock, Dial (Inr ()), GateUnlock] \<or>
     (\<exists>e. tr = [RuntimeBuild (Inr ()), GateLock, Dial (Inr ()), Ready (Inl e), GateUnlock])"

definition exchange :: "event \<Rightarrow> history" where
  "exchange call = [RuntimeBuild (Inr ()), GateLock, Dial (Inr ()), Ready (Inr ()), call, GateUnlock]"

lemma traced_unary:
  assumes "\<And>e. Q [Ready (Inl e)] (Inl (NotReady e))"
    and "\<And>r. Q [Ready (Inr ()), ev (hc_authorization client) r] r"
  shows "traced E (unary client answer ev) Q"
  unfolding unary_def by (intro traced_intro) (auto intro: assms)

lemma traced_connect_with_token:
  assumes "\<And>e. Q [Dial (Inl e)] (Inl e)" "\<And>e. Q [Dial (Inr ())] (Inl e)"
    and "Q [Dial (Inr ())] (Inr \<lparr>hc_authorization = bearer token\<rparr>)"
  shows "traced E (connect_with_token token) Q"
  unfolding connect_with_token_def by (intro traced_intro) (auto intro: assms)

text \<open>A client session around one unary call whose answer is post-processed.\<close>

lemma traced_with_client_unary:
  assumes fail: "\<And>tr e. failed_exchange tr \<Longrightarrow> Q tr (Inl e)"
    and call: "\<And>r. Q (exchange (ev (bearer jwt) r)) (post r)"
    and post: "\<And>e. \<exists>e'. post (Inl e) = Inl e'"
    and body: "\<And>client. call client =
       do { r \<leftarrow> unary client answer ev; State_Monad.return (post r) }"
  shows "traced E (with_client jwt call) Q"
proof -
  have not_ready: "Q (RuntimeBuild (Inr ()) # GateLock # Dial (Inr ()) # Ready (Inl e) # [GateUnlock])
      (post (Inl e'))" for e e'
    using post [of e'] by (auto intro!: fail simp: failed_exchange_def)
  show ?thesis
    unfolding with_client_def
    by (intro traced_intro traced_with_gate traced_connect_with_token)
      (auto simp: body intro!: traced_intro traced_unary fail not_ready call [unfolded exchange_def]
        simp: failed_exchange_def)
qed

end
