(* ===== verification/Hex_Uuid.thy ===== *)
theory Hex_Uuid
  imports Config World
begin

text \<open>
  Text and bytes of a UUID: the hexadecimal digit functions (\<open>nibble_to_hex\<close> in \<open>src/ble.rs\<close>,
  \<open>hex_digit\<close> in \<open>src/polling.rs\<close>), the two formatters \<open>command_id_label\<close> and
  \<open>expand_command_id\<close>, and the parser \<open>parse_uuid_compact_bytes\<close>. The lemmas show that parsing
  inverts formatting, and exactly which strings the parser takes.
\<close>

section \<open>Digits\<close>

definition nibble_to_hex :: "u8 \<Rightarrow> char" where
  "nibble_to_hex n =
     (if n \<le> 9 then char_of (unat (48 + n))
      else if n \<le> 15 then char_of (unat (97 + (n - 10)))
      else CHR ''0'')"

definition hex_digit :: "u8 \<Rightarrow> char" where
  "hex_digit n =
     (if n \<le> 9 then char_of (unat (48 + n))
      else if n \<le> 15 then char_of (unat (97 + (n - 10)))
      else CHR ''0'')"

text \<open>The digit arms of the parser's \<open>match byte\<close>.\<close>

definition hex_nibble :: "u8 \<Rightarrow> u8 option" where
  "hex_nibble b =
     (if 48 \<le> b \<and> b \<le> 57 then Some (b - 48)
      else if 97 \<le> b \<and> b \<le> 102 then Some (b - 97 + 10)
      else if 65 \<le> b \<and> b \<le> 70 then Some (b - 65 + 10)
      else None)"

section \<open>Formatting\<close>

text \<open>The loop of both formatters from byte number \<open>i\<close> on: a hyphen before bytes 4, 6, 8, 10.\<close>

fun expand_from :: "nat \<Rightarrow> bytes \<Rightarrow> string" where
  "expand_from i [] = []"
| "expand_from i (b # bs) =
     (if i \<in> {4, 6, 8, 10} then ''-'' else []) @
     [hex_digit (drop_bit 4 b), hex_digit (b AND 0x0f)] @ expand_from (Suc i) bs"

definition expand_command_id :: "bytes \<Rightarrow> string option" where
  "expand_command_id command_id = Some (expand_from 0 command_id)"

fun label_from :: "nat \<Rightarrow> bytes \<Rightarrow> string" where
  "label_from i [] = []"
| "label_from i (b # bs) =
     (if i \<in> {4, 6, 8, 10} then ''-'' else []) @
     [nibble_to_hex (drop_bit 4 b), nibble_to_hex (b AND 0x0f)] @ label_from (Suc i) bs"

definition command_id_label :: "bytes \<Rightarrow> string" where
  "command_id_label command_id = label_from 0 command_id"

section \<open>Parsing\<close>

text \<open>
  The loop over the bytes of the text with its three variables: the number of digits so far, the
  pending high nibble, and the output array.
\<close>

fun uuid_loop :: "bytes \<Rightarrow> nat \<Rightarrow> u8 \<Rightarrow> bytes \<Rightarrow> (nat \<times> bytes) res" where
  "uuid_loop [] n high out = Inr (n, out)"
| "uuid_loop (b # bs) n high out =
     (if b = 45 then uuid_loop bs n high out
      else case hex_nibble b of
        None \<Rightarrow> Inl (InvalidUuidChar b)
      | Some nibble \<Rightarrow>
          if n mod 2 = 0 then uuid_loop bs (n + 1) nibble out
          else if n div 2 \<ge> length out then Inl UuidTooLong
          else uuid_loop bs (n + 1) high (out[n div 2 := push_bit 4 high OR nibble]))"

definition parse_uuid_compact_bytes :: "string \<Rightarrow> bytes \<Rightarrow> bytes res" where
  "parse_uuid_compact_bytes raw_uuid output =
     (case uuid_loop (bytes_of_str raw_uuid) 0 0 output of
        Inl e \<Rightarrow> Inl e
      | Inr (nibble_index, out) \<Rightarrow> if nibble_index \<noteq> 32 then Inl UuidDigitCount else Inr out)"

section \<open>Digit lemmas\<close>

lemma hex_digit_eq: "hex_digit = nibble_to_hex"
  by (rule ext) (simp add: hex_digit_def nibble_to_hex_def)

lemma label_from_eq: "label_from i bs = expand_from i bs"
  by (induction i bs rule: expand_from.induct) (simp_all add: hex_digit_eq)

lemma high_nibble_le: "drop_bit 4 (b :: u8) \<le> 15"
proof -
  have "unat b div 16 \<le> 15" using unat_u8_less [of b] by linarith
  then show ?thesis by (simp add: word_le_nat_alt unat_drop_bit_eq drop_bit_eq_div unat_div)
qed

lemma low_nibble_le: "(b :: u8) AND 15 \<le> 15"
  by (rule word_and_le1)

lemma low_nibble_take_bit: "(b :: u8) AND 15 = take_bit 4 b"
proof -
  have "mask 4 = (15 :: u8)" by (simp add: mask_eq_exp_minus_1)
  then show ?thesis by (simp add: take_bit_eq_mask)
qed

lemma join_nibbles: "push_bit 4 (drop_bit 4 b) OR (b AND 15) = (b :: u8)"
  unfolding low_nibble_take_bit by (rule bit_word_eqI) (auto simp: bit_simps simp del: push_bit_numeral)

abbreviation byte_of :: "char \<Rightarrow> u8" where
  "byte_of c \<equiv> word_of_nat (of_char c)"

lemma byte_nibble_to_hex:
  "n \<le> 15 \<Longrightarrow> byte_of (nibble_to_hex n) = (if n \<le> 9 then 48 + n else 97 + (n - 10))"
  by (simp add: nibble_to_hex_def)

lemma unat_digit: "n \<le> 9 \<Longrightarrow> unat (48 + n :: u8) = 48 + unat n"
  by (simp add: unat_word_ariths word_le_nat_alt)
lemma unat_letter: "n \<le> 15 \<Longrightarrow> unat (87 + n :: u8) = 87 + unat n"
  by (simp add: unat_word_ariths word_le_nat_alt)

lemma hex_nibble_to_hex: "n \<le> 15 \<Longrightarrow> hex_nibble (byte_of (nibble_to_hex n)) = Some n"
  by (cases "n \<le> 9")
    (auto simp: byte_nibble_to_hex hex_nibble_def word_le_nat_alt unat_digit unat_letter)
lemma nibble_to_hex_not_hyphen: "n \<le> 15 \<Longrightarrow> byte_of (nibble_to_hex n) \<noteq> 45"
  by (cases "n \<le> 9")
    (auto simp: byte_nibble_to_hex word_unat_eq_iff unat_digit unat_letter)
lemma hex_nibble_le: "hex_nibble b = Some v \<Longrightarrow> v \<le> 15"
  by (auto simp: hex_nibble_def word_le_nat_alt unat_sub  unat_word_ariths split: if_splits)

lemma uuid_loop_pair:
  assumes "i < length out"
  shows "uuid_loop (byte_of (nibble_to_hex (drop_bit 4 b)) # byte_of (nibble_to_hex (b AND 15)) # rest)
           (2 * i) high out = uuid_loop rest (2 * Suc i) (drop_bit 4 b) (out[i := b])"
  using assms
  by (simp add: hex_nibble_to_hex nibble_to_hex_not_hyphen high_nibble_le low_nibble_le join_nibbles del: push_bit_numeral)

lemma uuid_loop_expand:
  assumes "i + length bs \<le> length out"
  shows "\<exists>high'. uuid_loop (bytes_of_str (expand_from i bs) @ rest) (2 * i) high out =
     uuid_loop rest (2 * (i + length bs)) high' (take i out @ bs @ drop (i + length bs) out)"
  using assms
proof (induction i bs arbitrary: high out rule: expand_from.induct)
  case (1 i)
  then show ?case by auto
next
  case (2 i b bs)
  have step: "uuid_loop (bytes_of_str (expand_from i (b # bs)) @ rest) (2 * i) high out =
      uuid_loop (bytes_of_str (expand_from (Suc i) bs) @ rest) (2 * Suc i) (drop_bit 4 b) (out[i := b])"
    using 2(2) uuid_loop_pair [of i out b "bytes_of_str (expand_from (Suc i) bs) @ rest" high] 
    by (auto simp: bytes_of_str_Cons hex_digit_eq)
  from 2(1) [of "out[i := b]" "drop_bit 4 b"] 2(2)
  show ?case unfolding step
    by (simp add: take_Suc_conv_app_nth take_update_swap list_update_append drop_update_cancel)
qed

section \<open>What the parser accepts\<close>

text \<open>The digits of a text: hyphens dropped, \<open>None\<close> when something else is left.\<close>

definition uuid_digits :: "string \<Rightarrow> u8 list option" where
  "uuid_digits s = those (map hex_nibble (filter (\<lambda>b. b \<noteq> 45) (bytes_of_str s)))"

fun pair_up :: "u8 list \<Rightarrow> bytes" where
  "pair_up (h # l # ns) = (push_bit 4 h OR l) # pair_up ns"
| "pair_up _ = []"

text \<open>The loop on digits alone.\<close>

fun nibble_loop :: "u8 list \<Rightarrow> nat \<Rightarrow> u8 \<Rightarrow> bytes \<Rightarrow> bytes option" where
  "nibble_loop [] n high out = Some out"
| "nibble_loop (v # vs) n high out =
     (if n mod 2 = 0 then nibble_loop vs (Suc n) v out
      else if n div 2 \<ge> length out then None
      else nibble_loop vs (Suc n) high (out[n div 2 := push_bit 4 high OR v]))"

lemma uuid_loop_nibbles:
  "uuid_loop bs n high out = Inr (m, out') \<longleftrightarrow>
     (\<exists>vs. those (map hex_nibble (filter (\<lambda>b. b \<noteq> 45) bs)) = Some vs \<and>
        nibble_loop vs n high out = Some out' \<and> m = n + length vs)"
proof (induction bs arbitrary: n high out)
  case Nil
  then show ?case by auto
next
  case (Cons b bs)
  show ?case
  proof (cases "b = 45")
    case True
    then show ?thesis using Cons.IH by simp
  next
    case False
    show ?thesis
    proof (cases "hex_nibble b")
      case None
      with False show ?thesis by simp
    next
      case (Some v)
      with False show ?thesis by (auto simp: Cons.IH) 
    qed
  qed
qed

lemma nibble_loop_pairs:
  assumes "length vs = 2 * k" "i + k \<le> length out"
  shows "nibble_loop vs (2 * i) high out = Some (take i out @ pair_up vs @ drop (i + k) out)"
  using assms
proof (induction vs arbitrary: i k high out rule: pair_up.induct)
  case (1 h l ns)
  then obtain k' where k: "k = Suc k'" "length ns = 2 * k'" by (cases k) auto
  let ?out = "out[i := push_bit 4 h OR l]"
  have "nibble_loop (h # l # ns) (2 * i) high out = nibble_loop ns (2 * Suc i) h ?out"
    using 1(3) k by simp
  also have "\<dots> = Some (take (Suc i) ?out @ pair_up ns @ drop (Suc i + k') ?out)"
    using 1(3) k by (intro "1.IH") auto
  also have "take (Suc i) ?out = take i out @ [push_bit 4 h OR l]"
    using 1(3) k by (simp add: take_Suc_conv_app_nth)
  finally show ?case using k by simp
qed auto

lemma length_pair_up [simp]: "length (pair_up vs) = length vs div 2"
  by (induction vs rule: pair_up.induct) auto

lemma parse_uuid_Inr_iff:
  assumes "length out = 16"
  shows "parse_uuid_compact_bytes s out = Inr cid \<longleftrightarrow>
           (\<exists>vs. uuid_digits s = Some vs \<and> length vs = 32 \<and> cid = pair_up vs)"
proof -
  have "nibble_loop vs 0 0 out = Some (pair_up vs)" if "length vs = 32" for vs
    using nibble_loop_pairs [of vs 16 0 out 0] that assms by simp
  moreover have "parse_uuid_compact_bytes s out = Inr cid \<longleftrightarrow>
      uuid_loop (bytes_of_str s) 0 0 out = Inr (32, cid)"
    by (auto simp: parse_uuid_compact_bytes_def split: sum.splits)
  ultimately show ?thesis by (auto simp: uuid_digits_def uuid_loop_nibbles)
qed

lemma parse_expand:
  assumes "length cid = 16" "length out = 16"
  shows "parse_uuid_compact_bytes (expand_from 0 cid) out = Inr cid"
  using uuid_loop_expand [of 0 cid out "[]" 0] assms
  by (auto simp: parse_uuid_compact_bytes_def)

lemma length_expand_from:
  "length (expand_from i bs) =
     2 * length bs + length (filter (\<lambda>j. j \<in> {4, 6, 8, 10}) [i..<i + length bs])"
  by (induction i bs rule: expand_from.induct) (simp_all add: upt_rec [of _ "_ + _"] upt_conv_Cons del: upt_Suc)

section \<open>The text form as a codec\<close>

definition uuid_text :: "bytes \<Rightarrow> string" where
  "uuid_text command_id = expand_from 0 command_id"

definition uuid_of_text :: "string \<Rightarrow> bytes option" where
  "uuid_of_text s =
     (case parse_uuid_compact_bytes s (replicate 16 0) of Inl _ \<Rightarrow> None | Inr b \<Rightarrow> Some b)"

interpretation uuid: codec uuid_text uuid_of_text "\<lambda>b. length b = 16"
  by unfold_locales (simp add: uuid_text_def uuid_of_text_def parse_expand)

lemma expand_command_id_text: "expand_command_id cid = Some (uuid_text cid)"
  by (simp add: expand_command_id_def uuid_text_def)

text \<open>
  C23: formatting and parsing a command id agree. The formatter of the poller gives a text of 36
  characters, the same as the label used in logs, and the parser of the motor payload reads the
  same 16 bytes back from it, whatever the output buffer held.
\<close>

theorem uuid_roundtrip:
  assumes "length cid = 16" and "length out = 16" and "expand_command_id cid = Some s"
  shows "parse_uuid_compact_bytes s out = Inr cid \<and> length s = 36 \<and> command_id_label cid = s"
proof -
  have "[0..<16] = [0, 1, 2, 3, 4, 5, 6, 7, 8, 9, 10, 11, 12, 13, 14, 15 :: nat]"
    by (simp add: upt_rec)
  then have "length (expand_from 0 cid) = 36" using assms(1) by (simp add: length_expand_from)
  with assms show ?thesis
    by (auto simp: expand_command_id_def command_id_label_def label_from_eq parse_expand)
qed

theorem uuid_roundtrip_witness:
  "parse_uuid_compact_bytes ''0a0a0a0a-0a0a-0a0a-0a0a-0a0a0a0a0a0a'' (replicate 16 0)
     = Inr (replicate 16 0x0a)"
proof -
  have s: "expand_command_id (replicate 16 0x0a)
      = Some ''0a0a0a0a-0a0a-0a0a-0a0a-0a0a0a0a0a0a''"
    by code_simp
  show ?thesis using uuid_roundtrip [OF _ _ s, of "replicate 16 0"] by simp
qed

text \<open>
  The parser accepts exactly the texts with 32 hexadecimal digits of either case, hyphens at
  any place ignored, and returns the digits joined in pairs.
\<close>

theorem uuid_parser_accepts:
  assumes "length out = 16"
  shows "parse_uuid_compact_bytes s out = Inr cid \<longleftrightarrow>
    (\<exists>vs. uuid_digits s = Some vs \<and> length vs = 32 \<and> cid = pair_up vs)"
  using assms by (rule parse_uuid_Inr_iff)

theorem uuid_parser_accepts_witness:
  "parse_uuid_compact_bytes ''--ABababababababababababababababAB'' (replicate 16 0)
     = Inr (replicate 16 0xab)"
proof -
  have d: "uuid_digits ''--ABababababababababababababababAB'' =
      Some [10, 11, 10, 11, 10, 11, 10, 11, 10, 11, 10, 11, 10, 11, 10, 11,
            10, 11, 10, 11, 10, 11, 10, 11, 10, 11, 10, 11, 10, 11, 10, 11]"
    by (simp add: uuid_digits_def bytes_of_str_Cons hex_nibble_def)
  show ?thesis
    by (subst uuid_parser_accepts) (simp_all add: d, code_simp)
qed

end
