(* ===== verification/Motor_Payload.thy ===== *)
theory Motor_Payload
  imports Hex_Uuid Time_Source
begin

text \<open>
  The two motor payloads of \<open>src/ble.rs\<close>: the command written to a probe
  (\<open>build_motor_command_payload\<close>) and the result read back (\<open>parse_motor_result_payload\<close>), with
  \<open>ProbeMotorResult\<close>. The layout is the one \<open>src/config.rs\<close> documents; \<open>decode_motor_payload\<close> and
  \<open>encode_motor_result\<close> are that documentation as functions, the probe's side of the two formats.
\<close>

section \<open>Little-endian words\<close>

definition u32_to_le_bytes :: "u32 \<Rightarrow> bytes" where
  "u32_to_le_bytes x = [ucast x, ucast (drop_bit 8 x), ucast (drop_bit 16 x), ucast (drop_bit 24 x)]"

fun u32_from_le_bytes :: "bytes \<Rightarrow> u32 option" where
  "u32_from_le_bytes [a, b, c, d] =
     Some (ucast a OR push_bit 8 (ucast b) OR push_bit 16 (ucast c) OR push_bit 24 (ucast d))"
| "u32_from_le_bytes _ = None"

lemma join_u32_bytes:
  "ucast (ucast x :: u8) OR push_bit 8 (ucast (ucast (drop_bit 8 x) :: u8)) OR
   push_bit 16 (ucast (ucast (drop_bit 16 x) :: u8)) OR
   push_bit 24 (ucast (ucast (drop_bit 24 x) :: u8)) = (x :: u32)"
proof (rule bit_word_eqI)
  fix n assume "n < LENGTH(32)"
  then have n: "n < 32" by simp
  consider "n < 8" | "8 \<le> n" "n < 16" | "16 \<le> n" "n < 24" | "24 \<le> n" by linarith
  then show "bit (ucast (ucast x :: u8) OR push_bit 8 (ucast (ucast (drop_bit 8 x) :: u8)) OR
      push_bit 16 (ucast (ucast (drop_bit 16 x) :: u8)) OR
      push_bit 24 (ucast (ucast (drop_bit 24 x) :: u8)) :: u32) n = bit x n"
    using n
    by cases (simp_all add: bit_or_iff bit_push_bit_iff bit_unsigned_iff bit_drop_bit_eq del: push_bit_numeral, auto)
qed

interpretation u32_le: codec u32_to_le_bytes u32_from_le_bytes "\<lambda>_. True"
  by unfold_locales (simp only: u32_to_le_bytes_def u32_from_le_bytes.simps join_u32_bytes)

lemma length_u32_to_le_bytes [simp]: "length (u32_to_le_bytes x) = 4"
  by (simp add: u32_to_le_bytes_def)

section \<open>The command payload\<close>

text \<open>\<open>duration_ms.max(0) as u32\<close>, then \<open>min\<close> with the limit.\<close>

definition clamp_duration_ms :: "i32 \<Rightarrow> u32" where
  "clamp_duration_ms duration_ms =
     (let clamped = (if sint duration_ms < 0 then 0 else duration_ms)
      in min clamped MOTOR_COMMAND_MAX_DURATION_MS)"

text \<open>\<open>(expires_at_ms - now_unix_ms).min(u32::MAX as i64) as u32\<close>.\<close>

definition remaining_expiry_ms :: "i64 \<Rightarrow> i64 \<Rightarrow> u32" where
  "remaining_expiry_ms expires_at_ms now_unix_ms =
     word_of_int (min (sint (expires_at_ms - now_unix_ms)) 4294967295)"

definition fill_motor_payload :: "u8 \<Rightarrow> bytes \<Rightarrow> u32 \<Rightarrow> u32 \<Rightarrow> bytes rs" where
  "fill_motor_payload action command_id_compact duration expiry =
     rs_bind (copy_from_slice (replicate MOTOR_COMMAND_PAYLOAD_LEN 0)
        MOTOR_COMMAND_PAYLOAD_MAGIC_OFFSET MOTOR_COMMAND_PAYLOAD_VERSION_OFFSET
        MOTOR_COMMAND_PAYLOAD_MAGIC) (\<lambda>payload.
     rs_bind (store payload MOTOR_COMMAND_PAYLOAD_VERSION_OFFSET
        MOTOR_COMMAND_PAYLOAD_VERSION) (\<lambda>payload.
     rs_bind (store payload MOTOR_COMMAND_PAYLOAD_ACTION_OFFSET action) (\<lambda>payload.
     rs_bind (copy_from_slice payload
        MOTOR_COMMAND_PAYLOAD_COMMAND_ID_OFFSET MOTOR_COMMAND_PAYLOAD_DURATION_MS_OFFSET
        command_id_compact) (\<lambda>payload.
     rs_bind (copy_from_slice payload
        MOTOR_COMMAND_PAYLOAD_DURATION_MS_OFFSET MOTOR_COMMAND_PAYLOAD_EXPIRY_MS_OFFSET
        (u32_to_le_bytes duration)) (\<lambda>payload.
     copy_from_slice payload MOTOR_COMMAND_PAYLOAD_EXPIRY_MS_OFFSET MOTOR_COMMAND_PAYLOAD_LEN
        (u32_to_le_bytes expiry))))))"

definition build_motor_command_payload :: "string \<Rightarrow> u8 \<Rightarrow> i32 \<Rightarrow> i64 \<Rightarrow> bytes res io" where
  "build_motor_command_payload command_id action duration_ms expires_at_ms =
     (if action \<noteq> MOTOR_COMMAND_ACTION_STOP \<and> action \<noteq> MOTOR_COMMAND_ACTION_RUN_FOR_DURATION
      then State_Monad.return (Inl (UnsupportedAction action))
      else case parse_uuid_compact_bytes command_id
              (replicate MOTOR_COMMAND_PAYLOAD_COMMAND_ID_LEN 0) of
        Inl e \<Rightarrow> State_Monad.return (Inl (Context ''invalid command_id UUID'' e))
      | Inr command_id_compact \<Rightarrow> do {
          now_unix_ms \<leftarrow> get_unix_now_ms;
          if sint expires_at_ms \<le> sint now_unix_ms
          then State_Monad.return (Inl ExpiredBeforeEncode)
          else State_Monad.return (Inr (rs_val (fill_motor_payload action command_id_compact
                 (clamp_duration_ms duration_ms)
                 (remaining_expiry_ms expires_at_ms now_unix_ms))))
        })"

text \<open>The layout in one piece.\<close>

lemma fill_motor_payload_layout:
  assumes "length command_id = 16"
  shows "fill_motor_payload action command_id duration expiry =
     Val (MOTOR_COMMAND_PAYLOAD_MAGIC @ [MOTOR_COMMAND_PAYLOAD_VERSION, action] @ command_id @
          u32_to_le_bytes duration @ u32_to_le_bytes expiry)"
  using assms
  by (simp add: fill_motor_payload_def motor_command_layout list_update_append
      take_update_swap numeral_2_eq_2)

lemma uint_clamp_duration_ms:
  "uint (clamp_duration_ms d) = min 5000 (max 0 (sint d))"
proof (cases "sint d < 0")
  case True
  then show ?thesis by (simp add: clamp_duration_ms_def MOTOR_COMMAND_MAX_DURATION_MS_def)
next
  case False
  then have "uint d = sint d" by (simp add: uint_eq_sint)
  with False show ?thesis
    by (simp add: clamp_duration_ms_def MOTOR_COMMAND_MAX_DURATION_MS_def min_def word_le_def)
qed

lemma sint_i64_diff:
  assumes "0 \<le> sint (b :: i64)" "sint b \<le> sint a"
  shows "sint (a - b) = sint a - sint b"
proof -
  have "sint a - sint b < 2 ^ 63" using assms sint_i64_range (2) [of a] by (simp add: i64_max_def)
  with assms show ?thesis by (simp add: sint_word_ariths signed_take_bit_int_eq_self)
qed

lemma uint_remaining_expiry_ms:
  assumes "0 \<le> sint now" "sint now \<le> sint expires"
  shows "uint (remaining_expiry_ms expires now) = min (sint expires - sint now) 4294967295"
  using assms
  by (simp add: remaining_expiry_ms_def sint_i64_diff uint_word_of_int_eq take_bit_int_eq_self min_def)

text \<open>The probe's side: the fields at the documented offsets.\<close>

definition decode_motor_payload :: "bytes \<Rightarrow> (u8 \<times> bytes \<times> u32 \<times> u32) option" where
  "decode_motor_payload p =
     (if length p = 30 \<and> take 4 p = MOTOR_COMMAND_PAYLOAD_MAGIC
         \<and> p ! 4 = MOTOR_COMMAND_PAYLOAD_VERSION
      then case (u32_from_le_bytes (take 4 (drop 22 p)), u32_from_le_bytes (drop 26 p)) of
          (Some d, Some e) \<Rightarrow> Some (p ! 5, take 16 (drop 6 p), d, e)
        | _ \<Rightarrow> None
      else None)"

definition motor_payload_of :: "u8 \<times> bytes \<times> u32 \<times> u32 \<Rightarrow> bytes" where
  "motor_payload_of = (\<lambda>(action, command_id, duration, expiry).
     rs_val (fill_motor_payload action command_id duration expiry))"

interpretation motor_payload: codec motor_payload_of decode_motor_payload
  "\<lambda>(action, command_id, duration, expiry). length command_id = 16"
proof (unfold_locales, clarify)
  fix action and command_id :: bytes and duration expiry
  assume len: "length command_id = 16"
  have "motor_payload_of (action, command_id, duration, expiry) =
      MOTOR_COMMAND_PAYLOAD_MAGIC @ [MOTOR_COMMAND_PAYLOAD_VERSION, action] @ command_id @
      u32_to_le_bytes duration @ u32_to_le_bytes expiry"
    using len by (simp add: motor_payload_of_def fill_motor_payload_layout)
  then show "decode_motor_payload (motor_payload_of (action, command_id, duration, expiry)) =
      Some (action, command_id, duration, expiry)"
    using len by (simp add: decode_motor_payload_def nth_append u32_le.dec_enc)
qed

text \<open>Every way through the encoder, with the clock readings it makes.\<close>

lemma traced_build_motor_command_payload:
  "traced E (build_motor_command_payload s action d expires) (\<lambda>tr r.
     (action \<notin> {0, 1} \<and> tr = [] \<and> r = Inl (UnsupportedAction action)) \<or>
     (\<exists>e. action \<in> {0, 1} \<and> parse_uuid_compact_bytes s (replicate 16 0) = Inl e \<and>
        tr = [] \<and> r = Inl (Context ''invalid command_id UUID'' e)) \<or>
     (\<exists>cid t. action \<in> {0, 1} \<and> parse_uuid_compact_bytes s (replicate 16 0) = Inr cid \<and>
        tr = [ClockRead t] \<and>
        r = (if sint expires \<le> sint (clock_ms t) then Inl ExpiredBeforeEncode
             else Inr (motor_payload_of (action, cid, clamp_duration_ms d,
                        remaining_expiry_ms expires (clock_ms t))))))"
  unfolding build_motor_command_payload_def
  by (intro traced_intro)
    (auto simp: MOTOR_COMMAND_ACTION_STOP_def MOTOR_COMMAND_ACTION_RUN_FOR_DURATION_def
      motor_command_layout motor_payload_of_def)

lemma parse_uuid_length:
  "parse_uuid_compact_bytes s out = Inr cid \<Longrightarrow> length out = 16 \<Longrightarrow> length cid = 16"
  by (auto simp: parse_uuid_Inr_iff)

text \<open>
  A motor command is encoded exactly when the action is stop or run, the command id is a UUID
  and the clock, read once, is before the expiry; in every other case the encoder returns an error.
\<close>

theorem motor_payload_success:
  "traced E (build_motor_command_payload s action d expires) (\<lambda>tr r.
     (\<exists>p. r = Inr p) = (action \<in> {0, 1} \<and> (\<exists>cid. parse_uuid_compact_bytes s (replicate 16 0) = Inr cid) \<and>
        (\<exists>t. tr = [ClockRead t] \<and> sint (clock_ms t) < sint expires)))"
  by (rule traced_conseq [OF traced_build_motor_command_payload]) (auto split: if_splits)

text \<open>
  C13: what a probe decodes from an encoded motor command is the action, the 16 bytes of the
  command id, the duration clamped to at most 5000 ms, and the time left until the expiry at the
  moment of encoding, which is positive and cut to the range of an unsigned 32-bit integer.
\<close>

theorem motor_payload_decodes:
  assumes run: "run_state (build_motor_command_payload s action d expires) w = (Inr payload, w')"
    and clock: "hist w' = hist w @ [ClockRead t]" "0 \<le> sint (clock_ms t)"
  shows "\<exists>cid duration expiry.
      decode_motor_payload payload = Some (action, cid, duration, expiry) \<and>
      parse_uuid_compact_bytes s (replicate 16 0) = Inr cid \<and>
      uint duration = min 5000 (max 0 (sint d)) \<and>
      uint expiry = min (sint expires - sint (clock_ms t)) 4294967295 \<and> 0 < uint expiry"
proof -
  from traced_run [OF traced_build_motor_command_payload run clock(1)] obtain cid where
    cid: "parse_uuid_compact_bytes s (replicate 16 0) = Inr cid"
    and before: "sint (clock_ms t) < sint expires"
    and payload: "payload = motor_payload_of (action, cid, clamp_duration_ms d,
        remaining_expiry_ms expires (clock_ms t))"
    by (auto split: if_splits)
  from cid have "length cid = 16" by (rule parse_uuid_length) simp
  then have "decode_motor_payload payload = Some (action, cid, clamp_duration_ms d,
      remaining_expiry_ms expires (clock_ms t))"
    unfolding payload by (intro motor_payload.dec_enc) simp
  with cid before clock(2) show ?thesis
    by (simp add: uint_clamp_duration_ms uint_remaining_expiry_ms)
qed

theorem motor_payload_decodes_witness:
  "\<exists>payload cid duration expiry.
     run_state (build_motor_command_payload ''0a0a0a0a-0a0a-0a0a-0a0a-0a0a0a0a0a0a'' 1 9000 4000)
       calm_world = (Inr payload, calm_world\<lparr>hist := [ClockRead (SinceEpochMs 1000)]\<rparr>) \<and>
     decode_motor_payload payload = Some (1, cid, duration, expiry) \<and>
     uint duration = 5000 \<and> uint expiry = 3000"
proof -
  let ?s = "''0a0a0a0a-0a0a-0a0a-0a0a-0a0a0a0a0a0a''"
  let ?w' = "calm_world\<lparr>hist := [ClockRead (SinceEpochMs 1000)]\<rparr>"
  have parse: "parse_uuid_compact_bytes ?s (replicate 16 0) = Inr (replicate 16 0x0a)" by code_simp
  define payload where "payload = rs_val (fill_motor_payload 1 (replicate 16 0x0a)
      (clamp_duration_ms 9000) (remaining_expiry_ms 4000 (clock_ms (SinceEpochMs 1000))))"
  have run: "run_state (build_motor_command_payload ?s 1 9000 4000) calm_world = (Inr payload, ?w')"
    by (simp add: build_motor_command_payload_def run_get_unix_now_ms parse payload_def calm_defs
        MOTOR_COMMAND_ACTION_STOP_def MOTOR_COMMAND_ACTION_RUN_FOR_DURATION_def
        motor_command_layout clock_ms_def)
  show ?thesis
    using motor_payload_decodes [OF run, of "SinceEpochMs 1000"] run
    by (auto simp: calm_defs clock_ms_def)
qed

section \<open>The result payload\<close>

record probe_motor_result =
  pmr_status :: u8
  pmr_reason_code :: u8
  pmr_command_id :: bytes

definition parse_motor_result_payload :: "bytes \<Rightarrow> probe_motor_result option res rs" where
  "parse_motor_result_payload raw =
     (if length raw \<noteq> MOTOR_RESULT_PAYLOAD_LEN then Val (Inr None)
      else rs_bind (slice raw MOTOR_RESULT_PAYLOAD_MAGIC_OFFSET MOTOR_RESULT_PAYLOAD_VERSION_OFFSET)
        (\<lambda>magic.
      if magic \<noteq> MOTOR_RESULT_PAYLOAD_MAGIC then Val (Inr None)
      else rs_bind (index raw MOTOR_RESULT_PAYLOAD_VERSION_OFFSET) (\<lambda>version.
      if version \<noteq> MOTOR_RESULT_PAYLOAD_VERSION then Val (Inr None)
      else rs_bind (slice raw MOTOR_RESULT_PAYLOAD_COMMAND_ID_OFFSET MOTOR_RESULT_PAYLOAD_LEN)
        (\<lambda>tail.
      rs_bind (copy_from_slice (replicate MOTOR_COMMAND_PAYLOAD_COMMAND_ID_LEN 0)
          0 MOTOR_COMMAND_PAYLOAD_COMMAND_ID_LEN tail) (\<lambda>command_id.
      if list_all (\<lambda>byte. byte = 0) command_id then Val (Inr None)
      else rs_bind (index raw MOTOR_RESULT_PAYLOAD_STATUS_OFFSET) (\<lambda>status.
      rs_bind (index raw MOTOR_RESULT_PAYLOAD_REASON_OFFSET) (\<lambda>reason_code.
      Val (Inr (Some \<lparr>pmr_status = status, pmr_reason_code = reason_code,
        pmr_command_id = command_id\<rparr>)))))))))"

definition status_label :: "probe_motor_result \<Rightarrow> string" where
  "status_label r =
     (if pmr_status r = 3 then ''SENT_TO_PROBE''
      else if pmr_status r = 4 then ''EXECUTING''
      else if pmr_status r = 5 then ''SUCCEEDED''
      else if pmr_status r = 6 then ''FAILED''
      else if pmr_status r = 7 then ''EXPIRED''
      else ''UNKNOWN'')"

definition reason_label :: "probe_motor_result \<Rightarrow> string" where
  "reason_label r =
     (if pmr_reason_code r = 1 then ''NONE''
      else if pmr_reason_code r = 3 then ''EXPIRED''
      else if pmr_reason_code r = 7 then ''UART_TIMEOUT''
      else if pmr_reason_code r = 8 then ''UART_REJECTED''
      else ''UNKNOWN'')"

definition is_terminal :: "probe_motor_result \<Rightarrow> bool" where
  "is_terminal r \<longleftrightarrow> 5 \<le> pmr_status r \<and> pmr_status r \<le> 7"

text \<open>The probe's side of the format, and the results it stands for.\<close>

definition encode_motor_result :: "probe_motor_result \<Rightarrow> bytes" where
  "encode_motor_result r = MOTOR_RESULT_PAYLOAD_MAGIC @
     [MOTOR_RESULT_PAYLOAD_VERSION, pmr_status r, pmr_reason_code r] @ pmr_command_id r"

definition valid_motor_result :: "probe_motor_result \<Rightarrow> bool" where
  "valid_motor_result r \<longleftrightarrow>
     length (pmr_command_id r) = 16 \<and> list_ex (\<lambda>b. b \<noteq> 0) (pmr_command_id r)"

definition motor_result_of :: "bytes \<Rightarrow> probe_motor_result option" where
  "motor_result_of raw =
     (case rs_val (parse_motor_result_payload raw) of Inl _ \<Rightarrow> None | Inr r \<Rightarrow> r)"

lemma parse_encode_motor_result:
  "valid_motor_result r \<Longrightarrow> parse_motor_result_payload (encode_motor_result r) = Val (Inr (Some r))"
  by (simp add: valid_motor_result_def encode_motor_result_def parse_motor_result_payload_def
      motor_result_layout nth_append list_all_iff list_ex_iff)

interpretation motor_result: codec encode_motor_result motor_result_of valid_motor_result
  by unfold_locales (simp add: motor_result_of_def parse_encode_motor_result)

lemma parse_motor_result_total: "\<exists>r. parse_motor_result_payload raw = Val (Inr r)"
  by (simp add: parse_motor_result_payload_def motor_result_layout)

lemma parse_motor_result_Some:
  assumes "parse_motor_result_payload raw = Val (Inr (Some r))"
  shows "raw = encode_motor_result r \<and> valid_motor_result r"
proof -
  from assms have len: "length raw = 23" and magic: "take 4 raw = MOTOR_RESULT_PAYLOAD_MAGIC"
    and r: "raw ! 4 = MOTOR_RESULT_PAYLOAD_VERSION" "pmr_status r = raw ! 5"
      "pmr_reason_code r = raw ! 6" "pmr_command_id r = drop 7 raw"
    and nz: "\<not> list_all (\<lambda>b. b = 0) (drop 7 raw)"
    by (auto simp: parse_motor_result_payload_def motor_result_layout split: if_splits)
  have "raw = take 4 raw @ [raw ! 4, raw ! 5, raw ! 6] @ drop 7 raw"
    using len Cons_nth_drop_Suc [of 4 raw] Cons_nth_drop_Suc [of 5 raw]
      Cons_nth_drop_Suc [of 6 raw] append_take_drop_id [of 4 raw] by simp
  with len magic r nz show ?thesis
    by (simp add: encode_motor_result_def valid_motor_result_def list_all_iff list_ex_iff)
qed

text \<open>
  C22: the parser of motor results never panics or fails on any bytes read from a probe, and
  returns a result exactly for the 23-byte encodings of results with a non-zero command id.
\<close>

theorem motor_result_parse_exact:
  "parse_motor_result_payload raw = Val (Inr (motor_result_of raw)) \<and>
   (motor_result_of raw = Some r) = (raw = encode_motor_result r \<and> valid_motor_result r)"
proof -
  obtain q where q: "parse_motor_result_payload raw = Val (Inr q)"
    using parse_motor_result_total by blast
  then have of_q: "motor_result_of raw = q" by (simp add: motor_result_of_def)
  have "q = Some r \<longleftrightarrow> raw = encode_motor_result r \<and> valid_motor_result r"
    using parse_motor_result_Some [of raw r] parse_encode_motor_result [of r] q by auto
  with q of_q show ?thesis by simp
qed

end
