(* ===== verification/Poller.thy ===== *)
theory Poller
  imports Dedup Hub_Client Motor_Payload
begin

text \<open>
  \<open>CommandPoller\<close> of \<open>src/polling.rs\<close>: it pulls motor commands from the backend, keeps them until
  their probe is in range, and reports what became of them. The handlers take the poller and
  return the new one; acknowledgements are RPC events of the trace.
\<close>

section \<open>Data\<close>

record dispatch_request =
  dr_command_id :: string
  dr_action :: u8
  dr_duration_ms :: i32
  dr_expires_at :: i64

record pending_command =
  pc_command_id :: string
  pc_node_id :: string
  pc_action :: u8
  pc_duration_ms :: i32
  pc_expires_at :: i64

datatype dispatch_failure = DispatchExpired | BleWriteFailed error

record poller =
  command_dedup :: dedup
  pending :: "pending_command list"
  applied_probe_results :: "string set"

definition empty_poller :: poller where
  "empty_poller = \<lparr>command_dedup = empty_dedup, pending = [], applied_probe_results = {}\<rparr>"

datatype parsed_action = RunForDuration i32 | Stop | UnknownAction i32

section \<open>Decimal numbers in messages\<close>

fun show_nat :: "nat \<Rightarrow> string" where
  "show_nat n =
     (if n < 10 then [char_of (48 + n)] else show_nat (n div 10) @ [char_of (48 + n mod 10)])"

declare show_nat.simps [simp del]

definition show_i32 :: "i32 \<Rightarrow> string" where
  "show_i32 x = (if sint x < 0 then ''-'' @ show_nat (nat (- sint x)) else show_nat (nat (sint x)))"

text \<open>\<open>format!("unsupported motor action value: {raw_action}")\<close>.\<close>

definition unsupported_action_message :: "i32 \<Rightarrow> string" where
  "unsupported_action_message raw_action = ''unsupported motor action value: '' @ show_i32 raw_action"

section \<open>Backend calls\<close>

definition pull_commands_once :: "string \<Rightarrow> string \<Rightarrow> motor_command list res io" where
  "pull_commands_once jwt hub_device_id =
     with_client jwt (\<lambda>client. pull_pending_motor_commands client hub_device_id
       MOTOR_COMMAND_POLL_BATCH_SIZE MOTOR_COMMAND_POLL_LEASE_DURATION_MS)"

definition ack_once :: "string \<Rightarrow> string \<Rightarrow> string \<Rightarrow> string \<Rightarrow> motor_status \<Rightarrow> motor_reason \<Rightarrow>
    string \<Rightarrow> motor_command option res io" where
  "ack_once jwt command_id hub_id node_id status reason_code reason_message =
     with_client jwt (\<lambda>client. ack_motor_command_event client command_id hub_id node_id status
       reason_code reason_message)"

definition ack_best_effort :: "string \<Rightarrow> string \<Rightarrow> string \<Rightarrow> string \<Rightarrow> motor_status \<Rightarrow>
    motor_reason \<Rightarrow> string \<Rightarrow> bool io" where
  "ack_best_effort jwt command_id hub_id node_id status reason_code reason_message = do {
     ack_result \<leftarrow> ack_once jwt command_id hub_id node_id status reason_code reason_message;
     case ack_result of
       Inl e \<Rightarrow> State_Monad.return False
     | Inr _ \<Rightarrow> State_Monad.return True
   }"

section \<open>Storing a pulled command\<close>

definition command_is_expired :: "motor_command \<Rightarrow> bool io" where
  "command_is_expired command = do {
     now_ms \<leftarrow> unix_now_ms;
     State_Monad.return (0 < sint (mc_expires_at command) \<and>
       sint (mc_expires_at command) \<le> sint now_ms)
   }"

definition pending_command_is_expired :: "pending_command \<Rightarrow> bool io" where
  "pending_command_is_expired command = do {
     now_ms \<leftarrow> unix_now_ms;
     State_Monad.return (0 < sint (pc_expires_at command) \<and>
       sint (pc_expires_at command) \<le> sint now_ms)
   }"

definition parse_command_action :: "motor_command \<Rightarrow> parsed_action io" where
  "parse_command_action command = do {
     action \<leftarrow> library (\<lambda>E. action_try_from E (mc_action command));
     State_Monad.return (case action of
       Some ActionRunForDuration \<Rightarrow> RunForDuration (mc_duration_ms command)
     | Some ActionStop \<Rightarrow> Stop
     | Some ActionUnspecified \<Rightarrow> UnknownAction (mc_action command)
     | None \<Rightarrow> UnknownAction (mc_action command))
   }"

text \<open>\<open>self.command_dedup.finish_processed(..)\<close>, on the poller.\<close>

definition finish_command :: "string \<Rightarrow> poller \<Rightarrow> poller io" where
  "finish_command command_id p = do {
     d \<leftarrow> finish_processed command_id (command_dedup p);
     State_Monad.return (p\<lparr>command_dedup := d\<rparr>)
   }"

definition store_polled_command :: "string \<Rightarrow> string \<Rightarrow> motor_command \<Rightarrow> poller \<Rightarrow> poller io" where
  "store_polled_command hub_device_id jwt command p = do {
     (begun, d) \<leftarrow> try_begin (mc_command_id command) (command_dedup p);
     let p = p\<lparr>command_dedup := d\<rparr>;
     case begun of
       AlreadyProcessed \<Rightarrow> State_Monad.return p
     | AlreadyProcessing \<Rightarrow> State_Monad.return p
     | New \<Rightarrow> do {
         expired \<leftarrow> command_is_expired command;
         if expired then do {
           _ \<leftarrow> ack_best_effort jwt (mc_command_id command) hub_device_id (mc_node_id command)
                 StatusExpired ReasonExpired ''command expired before dispatch'';
           finish_command (mc_command_id command) p
         } else do {
           parsed \<leftarrow> parse_command_action command;
           case parsed of
             RunForDuration duration_ms \<Rightarrow>
               if sint duration_ms < 0 then do {
                 _ \<leftarrow> ack_best_effort jwt (mc_command_id command) hub_device_id
                       (mc_node_id command) StatusFailed ReasonBleWriteFailed
                       ''invalid negative motor duration'';
                 finish_command (mc_command_id command) p
               } else State_Monad.return (p\<lparr>pending := pending p @
                   [\<lparr>pc_command_id = mc_command_id command, pc_node_id = mc_node_id command,
                     pc_action = MOTOR_COMMAND_ACTION_RUN_FOR_DURATION,
                     pc_duration_ms = mc_duration_ms command,
                     pc_expires_at = mc_expires_at command\<rparr>]\<rparr>)
           | Stop \<Rightarrow> State_Monad.return (p\<lparr>pending := pending p @
                   [\<lparr>pc_command_id = mc_command_id command, pc_node_id = mc_node_id command,
                     pc_action = MOTOR_COMMAND_ACTION_STOP,
                     pc_duration_ms = mc_duration_ms command,
                     pc_expires_at = mc_expires_at command\<rparr>]\<rparr>)
           | UnknownAction raw_action \<Rightarrow> do {
               _ \<leftarrow> ack_best_effort jwt (mc_command_id command) hub_device_id
                     (mc_node_id command) StatusFailed ReasonBleWriteFailed
                     (unsupported_action_message raw_action);
               finish_command (mc_command_id command) p
             }
         }
       }
   }"

section \<open>Dispatch\<close>

definition request_of :: "pending_command \<Rightarrow> dispatch_request" where
  "request_of command = \<lparr>dr_command_id = pc_command_id command, dr_action = pc_action command,
     dr_duration_ms = pc_duration_ms command, dr_expires_at = pc_expires_at command\<rparr>"

definition peek_pending_for_probe_uuid :: "string \<Rightarrow> poller \<Rightarrow> dispatch_request option" where
  "peek_pending_for_probe_uuid probe_uuid p =
     map_option request_of (find (\<lambda>command. pc_node_id command = probe_uuid) (pending p))"

definition dispatch_pending_command :: "string \<Rightarrow> string \<Rightarrow> pending_command \<Rightarrow>
    (dispatch_request \<Rightarrow> (dispatch_failure + unit) io) \<Rightarrow> poller \<Rightarrow>
    (pending_command option \<times> poller) io" where
  "dispatch_pending_command hub_device_id jwt command dispatch_motor p = do {
     result \<leftarrow> dispatch_motor (request_of command);
     case result of
       Inr _ \<Rightarrow> do {
         ack_sent \<leftarrow> ack_best_effort jwt (pc_command_id command) hub_device_id
           (pc_node_id command) StatusSentToProbe ReasonNone
           ''motor command write acknowledged by probe'';
         if ack_sent then do {
           p \<leftarrow> finish_command (pc_command_id command) p;
           State_Monad.return (None, p)
         } else State_Monad.return (Some command, p)
       }
     | Inl failure \<Rightarrow> (case failure of
         DispatchExpired \<Rightarrow> do {
           _ \<leftarrow> ack_best_effort jwt (pc_command_id command) hub_device_id
             (pc_node_id command) StatusExpired ReasonExpired
             ''command expired before BLE write'';
           p \<leftarrow> finish_command (pc_command_id command) p;
           State_Monad.return (None, p)
         }
       | BleWriteFailed message \<Rightarrow> State_Monad.return (Some command, p))
   }"

definition complete_dispatched_for_probe :: "string \<Rightarrow> string \<Rightarrow> string \<Rightarrow>
    dispatch_failure + unit \<Rightarrow> poller \<Rightarrow> poller io" where
  "complete_dispatched_for_probe hub_device_id jwt probe_uuid dispatch_result p = do {
     (_, remaining, p) \<leftarrow> for_each (pending p)
       (\<lambda>command (consumed, remaining, p).
          if consumed \<or> pc_node_id command \<noteq> probe_uuid
          then State_Monad.return (consumed, remaining @ [command], p)
          else do {
            (kept, p) \<leftarrow> dispatch_pending_command hub_device_id jwt command
              (\<lambda>_. State_Monad.return dispatch_result) p;
            State_Monad.return (True,
              (case kept of Some command \<Rightarrow> remaining @ [command] | None \<Rightarrow> remaining), p)
          })
       (False, [], p\<lparr>pending := []\<rparr>);
     State_Monad.return (p\<lparr>pending := remaining\<rparr>)
   }"

section \<open>Probe results\<close>

text \<open>The \<open>match probe_result.status\<close>: what is acknowledged, \<open>None\<close> for the early return.\<close>

definition probe_result_ack ::
  "probe_motor_result \<Rightarrow> (motor_status \<times> motor_reason \<times> string) option" where
  "probe_result_ack r =
     (if pmr_status r = 4 then
        Some (StatusExecuting, ReasonNone, ''probe started executing motor command'')
      else if pmr_status r = 5 then
        Some (StatusSucceeded, ReasonNone, ''probe completed motor command successfully'')
      else if pmr_status r = 6 then
        Some (StatusFailed,
          (if pmr_reason_code r = 7 then ReasonUartTimeout
           else if pmr_reason_code r = 8 then ReasonUartRejected
           else ReasonBleWriteFailed),
          ''probe reported motor command failure'')
      else if pmr_status r = 7 then
        Some (StatusExpired, ReasonExpired, ''probe reported command expired before execution'')
      else None)"

definition apply_probe_motor_result :: "string \<Rightarrow> string \<Rightarrow> string \<Rightarrow> probe_motor_result \<Rightarrow>
    poller \<Rightarrow> poller io" where
  "apply_probe_motor_result hub_device_id jwt probe_uuid probe_result p =
     (case expand_command_id (pmr_command_id probe_result) of
        None \<Rightarrow> State_Monad.return p
      | Some command_id \<Rightarrow>
          if command_id \<in> applied_probe_results p then State_Monad.return p
          else case probe_result_ack probe_result of
            None \<Rightarrow> State_Monad.return p
          | Some (status, reason_code, reason_message) \<Rightarrow> do {
              ack_sent \<leftarrow> ack_best_effort jwt command_id hub_device_id probe_uuid status
                reason_code reason_message;
              if ack_sent then do {
                p \<leftarrow> finish_command command_id p;
                State_Monad.return (p\<lparr>applied_probe_results :=
                  insert command_id (applied_probe_results p)\<rparr>)
              } else State_Monad.return p
            })"

section \<open>Polling\<close>

definition expire_pending_commands :: "string \<Rightarrow> string \<Rightarrow> poller \<Rightarrow> poller io" where
  "expire_pending_commands hub_device_id jwt p =
     for_each (pending p)
       (\<lambda>command p. do {
          expired \<leftarrow> pending_command_is_expired command;
          if expired then do {
            _ \<leftarrow> ack_best_effort jwt (pc_command_id command) hub_device_id
              (pc_node_id command) StatusExpired ReasonExpired
              ''command expired before probe became available'';
            finish_command (pc_command_id command) p
          } else State_Monad.return (p\<lparr>pending := pending p @ [command]\<rparr>)
        })
       (p\<lparr>pending := []\<rparr>)"

definition poll_once :: "string \<Rightarrow> string \<Rightarrow> poller \<Rightarrow> poller io" where
  "poll_once hub_device_id jwt p = do {
     p \<leftarrow> expire_pending_commands hub_device_id jwt p;
     pulled \<leftarrow> pull_commands_once jwt hub_device_id;
     case pulled of
       Inl e \<Rightarrow> State_Monad.return p
     | Inr commands \<Rightarrow> for_each commands (store_polled_command hub_device_id jwt) p
   }"

end
