(* ===== verification/Poller_Spec.thy ===== *)
theory Poller_Spec
  imports Poller
begin

text \<open>
  What the poller's handlers promise, as step relations: each says which events a handler appends
  to the history and which poller it returns, branch by branch, and each handler refines its
  relation (\<open>traced_store_polled_command\<close>, \<open>traced_expire_pending_commands\<close>, \<open>traced_poll_once\<close>,
  \<open>traced_complete_dispatched\<close>, \<open>traced_apply_probe_motor_result\<close>). The properties of the poller are
  read off the relations.
\<close>

section \<open>Acknowledgements in traces\<close>

text \<open>
  One best-effort acknowledgement: no call was made, or the call is in the trace; it counts as
  sent exactly when the backend answered it without an error.
\<close>

definition ack_trace :: "string \<Rightarrow> ack_request \<Rightarrow> history \<Rightarrow> bool \<Rightarrow> bool" where
  "ack_trace jwt request tr ok \<longleftrightarrow>
     (failed_exchange tr \<and> \<not> ok) \<or>
     (\<exists>r. tr = exchange (AckRpc (bearer jwt) request r) \<and> ok = (\<exists>c. r = Inr c))"

lemma traced_ack_best_effort [traced_intro]:
  assumes "\<And>tr ok. ack_trace jwt \<lparr>ar_command_id = command_id, ar_hub_id = hub_id,
      ar_node_id = node_id, ar_status = status, ar_reason_code = reason_code,
      ar_reason_message = reason_message\<rparr> tr ok \<Longrightarrow> Q tr ok"
  shows "traced E (ack_best_effort jwt command_id hub_id node_id status reason_code reason_message) Q"
  unfolding ack_best_effort_def ack_once_def ack_motor_command_event_def Let_def
  by (intro traced_intro, rule traced_with_client_unary [where post = "\<lambda>r. r"])
    (auto intro!: traced_intro assms simp: ack_trace_def split: sum.splits, blast)

lemma traced_finish_command [traced_intro]:
  "(\<And>t u. Q [ClockRead t, ClockRead u]
      (p\<lparr>command_dedup := finish_at (clock_ms t) (clock_ms u) k (command_dedup p)\<rparr>)) \<Longrightarrow>
   traced E (finish_command k p) Q"
  unfolding finish_command_def by (intro traced_intro traced_finish_processed) simp

lemma traced_command_is_expired [traced_intro]:
  "(\<And>t. Q [ClockRead t] (0 < sint (mc_expires_at c) \<and> sint (mc_expires_at c) \<le> sint (clock_ms t)))
   \<Longrightarrow> traced E (command_is_expired c) Q"
  unfolding command_is_expired_def by (intro traced_intro) simp

lemma traced_pending_command_is_expired [traced_intro]:
  "(\<And>t. Q [ClockRead t] (0 < sint (pc_expires_at c) \<and> sint (pc_expires_at c) \<le> sint (clock_ms t)))
   \<Longrightarrow> traced E (pending_command_is_expired c) Q"
  unfolding pending_command_is_expired_def by (intro traced_intro) simp

lemma traced_pull_commands_once [traced_intro]:
  assumes "\<And>tr e. failed_exchange tr \<Longrightarrow> Q tr (Inl e)"
    and "\<And>r. Q (exchange (PullRpc (bearer jwt) \<lparr>pr_hub_id = hub, pr_max_commands = 1,
        pr_lease_duration_ms = 300000\<rparr> r)) r"
  shows "traced E (pull_commands_once jwt hub) Q"
  unfolding pull_commands_once_def pull_pending_motor_commands_def Let_def
  by (rule traced_with_client_unary [where post = "\<lambda>r. r"])
    (auto intro: assms simp: MOTOR_COMMAND_POLL_BATCH_SIZE_def
      MOTOR_COMMAND_POLL_LEASE_DURATION_MS_def)

lemma traced_case_dedup_begin [traced_intro]:
  "(b = AlreadyProcessed \<Longrightarrow> traced E m Q) \<Longrightarrow> (b = AlreadyProcessing \<Longrightarrow> traced E n Q) \<Longrightarrow>
   (b = New \<Longrightarrow> traced E l Q) \<Longrightarrow>
   traced E (case b of New \<Rightarrow> l | AlreadyProcessing \<Rightarrow> n | AlreadyProcessed \<Rightarrow> m) Q"
  by (cases b) auto

lemma traced_case_parsed_action [traced_intro]:
  "(\<And>d. a = RunForDuration d \<Longrightarrow> traced E (m d) Q) \<Longrightarrow> (a = Stop \<Longrightarrow> traced E n Q) \<Longrightarrow>
   (\<And>x. a = UnknownAction x \<Longrightarrow> traced E (l x) Q) \<Longrightarrow>
   traced E (case a of RunForDuration d \<Rightarrow> m d | Stop \<Rightarrow> n | UnknownAction x \<Rightarrow> l x) Q"
  by (cases a) auto

lemma traced_case_dispatch_failure [traced_intro]:
  "(f = DispatchExpired \<Longrightarrow> traced E m Q) \<Longrightarrow> (\<And>e. f = BleWriteFailed e \<Longrightarrow> traced E (n e) Q) \<Longrightarrow>
   traced E (case f of DispatchExpired \<Rightarrow> m | BleWriteFailed e \<Rightarrow> n e) Q"
  by (cases f) auto

section \<open>Storing a command, as a relation\<close>

definition pending_of :: "u8 \<Rightarrow> motor_command \<Rightarrow> pending_command" where
  "pending_of action c = \<lparr>pc_command_id = mc_command_id c, pc_node_id = mc_node_id c,
     pc_action = action, pc_duration_ms = mc_duration_ms c, pc_expires_at = mc_expires_at c\<rparr>"

definition ack_for :: "string \<Rightarrow> string \<Rightarrow> string \<Rightarrow> motor_status \<Rightarrow> motor_reason \<Rightarrow> string \<Rightarrow> ack_request" where
  "ack_for hub command_id node_id status reason message = \<lparr>ar_command_id = command_id,
     ar_hub_id = hub, ar_node_id = node_id, ar_status = status, ar_reason_code = reason,
     ar_reason_message = message\<rparr>"

text \<open>Why a pulled command is refused, and what the backend is told.\<close>

inductive refusal :: "env \<Rightarrow> i64 \<Rightarrow> motor_command \<Rightarrow> motor_status \<Rightarrow> motor_reason \<Rightarrow> string \<Rightarrow> bool"
  for E now c where
  expired: "0 < sint (mc_expires_at c) \<Longrightarrow> sint (mc_expires_at c) \<le> sint now \<Longrightarrow>
    refusal E now c StatusExpired ReasonExpired ''command expired before dispatch''"
| negative: "\<not> (0 < sint (mc_expires_at c) \<and> sint (mc_expires_at c) \<le> sint now) \<Longrightarrow>
    action_try_from E (mc_action c) = Some ActionRunForDuration \<Longrightarrow> sint (mc_duration_ms c) < 0 \<Longrightarrow>
    refusal E now c StatusFailed ReasonBleWriteFailed ''invalid negative motor duration''"
| unsupported: "\<not> (0 < sint (mc_expires_at c) \<and> sint (mc_expires_at c) \<le> sint now) \<Longrightarrow>
    action_try_from E (mc_action c) \<in> {None, Some ActionUnspecified} \<Longrightarrow>
    refusal E now c StatusFailed ReasonBleWriteFailed
      (unsupported_action_message (mc_action c))"

text \<open>The action byte of a command that is accepted.\<close>

inductive accepted :: "env \<Rightarrow> i64 \<Rightarrow> motor_command \<Rightarrow> u8 \<Rightarrow> bool" for E now c where
  run: "\<not> (0 < sint (mc_expires_at c) \<and> sint (mc_expires_at c) \<le> sint now) \<Longrightarrow>
    action_try_from E (mc_action c) = Some ActionRunForDuration \<Longrightarrow> 0 \<le> sint (mc_duration_ms c) \<Longrightarrow>
    accepted E now c MOTOR_COMMAND_ACTION_RUN_FOR_DURATION"
| stop: "\<not> (0 < sint (mc_expires_at c) \<and> sint (mc_expires_at c) \<le> sint now) \<Longrightarrow>
    action_try_from E (mc_action c) = Some ActionStop \<Longrightarrow> accepted E now c MOTOR_COMMAND_ACTION_STOP"

inductive store_step :: "env \<Rightarrow> string \<Rightarrow> string \<Rightarrow> motor_command \<Rightarrow> poller \<Rightarrow> history \<Rightarrow> poller \<Rightarrow> bool"
  for E hub jwt c p where
  duplicate: "begin_at (clock_ms t) (mc_command_id c) (command_dedup p) = (b, d) \<Longrightarrow> b \<noteq> New \<Longrightarrow>
    store_step E hub jwt c p [ClockRead t] (p\<lparr>command_dedup := d\<rparr>)"
| refused: "begin_at (clock_ms t) (mc_command_id c) (command_dedup p) = (New, d) \<Longrightarrow>
    refusal E (clock_ms u) c status reason message \<Longrightarrow>
    ack_trace jwt (ack_for hub (mc_command_id c) (mc_node_id c) status reason message) tr ok \<Longrightarrow>
    store_step E hub jwt c p (ClockRead t # ClockRead u # tr @ [ClockRead v, ClockRead x])
      (p\<lparr>command_dedup := finish_at (clock_ms v) (clock_ms x) (mc_command_id c) d\<rparr>)"
| queued: "begin_at (clock_ms t) (mc_command_id c) (command_dedup p) = (New, d) \<Longrightarrow>
    accepted E (clock_ms u) c action \<Longrightarrow>
    store_step E hub jwt c p [ClockRead t, ClockRead u]
      (p\<lparr>command_dedup := d, pending := pending p @ [pending_of action c]\<rparr>)"

lemma traced_store_polled_command:
  "traced E (store_polled_command hub jwt c p) (store_step E hub jwt c p)"
  unfolding store_polled_command_def parse_command_action_def
  by (intro traced_intro traced_try_begin)
    (auto intro!: store_step.duplicate store_step.refused [unfolded ack_for_def]
      store_step.queued [unfolded pending_of_def] refusal.intros accepted.intros
      split: option.splits motor_action.splits)

inductive store_steps :: "env \<Rightarrow> string \<Rightarrow> string \<Rightarrow> motor_command list \<Rightarrow> poller \<Rightarrow> history \<Rightarrow>
    poller \<Rightarrow> bool" for E hub jwt where
  none: "store_steps E hub jwt [] p [] p"
| more: "store_step E hub jwt c p tr q \<Longrightarrow> store_steps E hub jwt cs q tr' r \<Longrightarrow>
    store_steps E hub jwt (c # cs) p (tr @ tr') r"

inductive_cases store_stepsE: "store_steps E hub jwt (c # cs) p tr q"

lemma store_steps_append:
  "store_steps E hub jwt cs p tr q \<Longrightarrow> store_steps E hub jwt ds q tr' r \<Longrightarrow>
   store_steps E hub jwt (cs @ ds) p (tr @ tr') r"
  by (induction rule: store_steps.induct) (auto intro: store_steps.more)

lemma store_steps_one: "store_step E hub jwt c p tr q \<Longrightarrow> store_steps E hub jwt [c] p tr q"
  using store_steps.more [OF _ store_steps.none] by force

lemma traced_store_all:
  "traced E (for_each cs (store_polled_command hub jwt) p) (store_steps E hub jwt cs p)"
proof (rule traced_conseq, rule traced_for_each_rest [where
      I = "\<lambda>rest tr q. \<exists>ds. cs = ds @ rest \<and> store_steps E hub jwt ds p tr q"])
  show "\<exists>ds. cs = ds @ cs \<and> store_steps E hub jwt ds p [] p" by (auto intro: store_steps.none)
next
  fix c rest tr q
  assume "\<exists>ds. cs = ds @ c # rest \<and> store_steps E hub jwt ds p tr q"
  then obtain ds where "cs = (ds @ [c]) @ rest" "store_steps E hub jwt ds p tr q" by auto
  then show "traced E (store_polled_command hub jwt c q)
      (\<lambda>tr' q'. \<exists>ds. cs = ds @ rest \<and> store_steps E hub jwt ds p (tr @ tr') q')"
    by (intro traced_conseq [OF traced_store_polled_command] exI [of _ "ds @ [c]"])
      (auto intro: store_steps_append store_steps_one)
qed auto

section \<open>The sweep of expired commands\<close>

definition due :: "i64 \<Rightarrow> pending_command \<Rightarrow> bool" where
  "due now c \<longleftrightarrow> 0 < sint (pc_expires_at c) \<and> sint (pc_expires_at c) \<le> sint now"

text \<open>
  The sweep goes through the queue in order, reading the clock for each command; a command that is
  due is reported, finished and dropped, every other one is kept in its place.
\<close>

inductive sweep :: "string \<Rightarrow> string \<Rightarrow> pending_command list \<Rightarrow> dedup \<Rightarrow> history \<Rightarrow>
    pending_command list \<Rightarrow> dedup \<Rightarrow> bool" for hub jwt where
  none: "sweep hub jwt [] d [] [] d"
| keep: "\<not> due (clock_ms t) c \<Longrightarrow> sweep hub jwt cs d tr ks d' \<Longrightarrow>
    sweep hub jwt (c # cs) d (ClockRead t # tr) (c # ks) d'"
| drop: "due (clock_ms t) c \<Longrightarrow>
    ack_trace jwt (ack_for hub (pc_command_id c) (pc_node_id c) StatusExpired ReasonExpired
      ''command expired before probe became available'') atr ok \<Longrightarrow>
    sweep hub jwt cs (finish_at (clock_ms u) (clock_ms v) (pc_command_id c) d) tr ks d' \<Longrightarrow>
    sweep hub jwt (c # cs) d (ClockRead t # atr @ ClockRead u # ClockRead v # tr) ks d'"

lemma sweep_append:
  "sweep hub jwt cs d tr ks d' \<Longrightarrow> sweep hub jwt cs' d' tr' ks' d'' \<Longrightarrow>
   sweep hub jwt (cs @ cs') d (tr @ tr') (ks @ ks') d''"
  by (induction rule: sweep.induct) (auto intro: sweep.intros)

lemma sweep_keep1: "\<not> due (clock_ms t) c \<Longrightarrow> sweep hub jwt [c] d [ClockRead t] [c] d"
  by (auto intro: sweep.intros)

lemma sweep_drop1:
  "due (clock_ms t) c \<Longrightarrow>
   ack_trace jwt (ack_for hub (pc_command_id c) (pc_node_id c) StatusExpired ReasonExpired
      ''command expired before probe became available'') atr ok \<Longrightarrow>
   sweep hub jwt [c] d (ClockRead t # atr @ [ClockRead u, ClockRead v]) []
     (finish_at (clock_ms u) (clock_ms v) (pc_command_id c) d)"
  by (auto intro: sweep.intros)

lemma traced_expire_pending_commands:
  "traced E (expire_pending_commands hub jwt p) (\<lambda>tr q. \<exists>ks d.
     sweep hub jwt (pending p) (command_dedup p) tr ks d \<and> q = p\<lparr>pending := ks, command_dedup := d\<rparr>)"
proof -
  define swept where "swept = (\<lambda>rest tr q. \<exists>cs ks d. pending p = cs @ rest \<and>
     sweep hub jwt cs (command_dedup p) tr ks d \<and> q = p\<lparr>pending := ks, command_dedup := d\<rparr>)"
  have start: "swept (pending p) [] (p\<lparr>pending := []\<rparr>)"
    unfolding swept_def
    by (intro exI [of _ "[]"] exI [of _ "command_dedup p"]) (simp add: sweep.none)
  have kept: "swept rest (tr @ [ClockRead t]) (q\<lparr>pending := pending q @ [c]\<rparr>)"
    if "swept (c # rest) tr q" "\<not> due (clock_ms t) c" for c rest tr q t
  proof -
    from that(1) obtain cs ks d where "pending p = (cs @ [c]) @ rest"
      and "sweep hub jwt cs (command_dedup p) tr ks d" "q = p\<lparr>pending := ks, command_dedup := d\<rparr>"
      unfolding swept_def by auto
    with sweep_append [OF _ sweep_keep1 [OF that(2)]] show ?thesis
      unfolding swept_def
      by (intro exI [of _ "cs @ [c]"] exI [of _ "ks @ [c]"] exI [of _ d]) auto
  qed
  have dropped: "swept rest (tr @ ClockRead t # atr @ [ClockRead u, ClockRead v])
      (q\<lparr>command_dedup := finish_at (clock_ms u) (clock_ms v) (pc_command_id c) (command_dedup q)\<rparr>)"
    if "swept (c # rest) tr q" "due (clock_ms t) c"
      "ack_trace jwt (ack_for hub (pc_command_id c) (pc_node_id c) StatusExpired ReasonExpired
        ''command expired before probe became available'') atr ok" for c rest tr q t atr ok u v
  proof -
    from that(1) obtain cs ks d where "pending p = (cs @ [c]) @ rest"
      and "sweep hub jwt cs (command_dedup p) tr ks d" "q = p\<lparr>pending := ks, command_dedup := d\<rparr>"
      unfolding swept_def by auto
    with sweep_append [OF _ sweep_drop1 [OF that(2,3)]] show ?thesis
      unfolding swept_def
      by (intro exI [of _ "cs @ [c]"] exI [of _ ks] exI conjI) auto
  qed
  have "traced E (expire_pending_commands hub jwt p) (swept [])"
    unfolding expire_pending_commands_def
    by (rule traced_for_each_rest [where I = swept, OF start], intro traced_intro)
      (auto intro: kept [unfolded due_def] dropped [unfolded due_def ack_for_def])
  then show ?thesis by (rule traced_conseq) (auto simp: swept_def)
qed

section \<open>A poll\<close>

definition pull_request_for :: "string \<Rightarrow> pull_request" where
  "pull_request_for hub = \<lparr>pr_hub_id = hub, pr_max_commands = 1, pr_lease_duration_ms = 300000\<rparr>"

inductive poll_step :: "env \<Rightarrow> string \<Rightarrow> string \<Rightarrow> poller \<Rightarrow> history \<Rightarrow> poller \<Rightarrow> bool"
  for E hub jwt p where
  pull_failed: "sweep hub jwt (pending p) (command_dedup p) tr ks d \<Longrightarrow>
    failed_exchange tr' \<or> (\<exists>e. tr' = exchange (PullRpc (bearer jwt) (pull_request_for hub) (Inl e))) \<Longrightarrow>
    poll_step E hub jwt p (tr @ tr') (p\<lparr>pending := ks, command_dedup := d\<rparr>)"
| pulled: "sweep hub jwt (pending p) (command_dedup p) tr ks d \<Longrightarrow>
    store_steps E hub jwt cs (p\<lparr>pending := ks, command_dedup := d\<rparr>) tr' q \<Longrightarrow>
    poll_step E hub jwt p
      (tr @ exchange (PullRpc (bearer jwt) (pull_request_for hub) (Inr cs)) @ tr') q"

lemma traced_poll_once: "traced E (poll_once hub jwt p) (poll_step E hub jwt p)"
  unfolding poll_once_def
proof (rule traced_bind, rule traced_conseq [OF traced_expire_pending_commands], elim exE conjE)
  fix tr q ks d
  assume sw: "sweep hub jwt (pending p) (command_dedup p) tr ks d"
    and q: "q = p\<lparr>pending := ks, command_dedup := d\<rparr>"
  show "traced E (do {
      pulled \<leftarrow> pull_commands_once jwt hub;
      case pulled of Inl e \<Rightarrow> State_Monad.return q
      | Inr commands \<Rightarrow> for_each commands (store_polled_command hub jwt) q })
    (\<lambda>tr'. poll_step E hub jwt p (tr @ tr'))"
    by (intro traced_intro)
      (auto intro!: poll_step.pull_failed [OF sw, unfolded pull_request_for_def]
          poll_step.pulled [OF sw, unfolded pull_request_for_def] traced_conseq [OF traced_store_all]
        simp: q)
qed

section \<open>Settling a dispatch\<close>

text \<open>
  What one dispatch result does to its command: whether the command stays in the queue, and the
  duplicate set.
\<close>

inductive settle :: "string \<Rightarrow> string \<Rightarrow> pending_command \<Rightarrow> dedup \<Rightarrow> dispatch_failure + unit \<Rightarrow>
    history \<Rightarrow> bool \<Rightarrow> dedup \<Rightarrow> bool" for hub jwt c d where
  sent: "ack_trace jwt (ack_for hub (pc_command_id c) (pc_node_id c) StatusSentToProbe ReasonNone
      ''motor command write acknowledged by probe'') atr True \<Longrightarrow>
    settle hub jwt c d (Inr ()) (atr @ [ClockRead t, ClockRead u]) False
      (finish_at (clock_ms t) (clock_ms u) (pc_command_id c) d)"
| unsent: "ack_trace jwt (ack_for hub (pc_command_id c) (pc_node_id c) StatusSentToProbe ReasonNone
      ''motor command write acknowledged by probe'') atr False \<Longrightarrow>
    settle hub jwt c d (Inr ()) atr True d"
| expired: "ack_trace jwt (ack_for hub (pc_command_id c) (pc_node_id c) StatusExpired ReasonExpired
      ''command expired before BLE write'') atr ok \<Longrightarrow>
    settle hub jwt c d (Inl DispatchExpired) (atr @ [ClockRead t, ClockRead u]) False
      (finish_at (clock_ms t) (clock_ms u) (pc_command_id c) d)"
| failed: "settle hub jwt c d (Inl (BleWriteFailed e)) [] True d"

inductive_cases settleE: "settle hub jwt c d r tr kept d'"

lemma traced_dispatch_pending_command:
  "traced E (dispatch_pending_command hub jwt c (\<lambda>_. State_Monad.return r) p) (\<lambda>tr (kept, q).
     \<exists>stays d. settle hub jwt c (command_dedup p) r tr stays d \<and>
       kept = (if stays then Some c else None) \<and> q = p\<lparr>command_dedup := d\<rparr>)"
  unfolding dispatch_pending_command_def
  by (intro traced_intro)
    (fastforce simp: ack_for_def [symmetric] intro: settle.intros)+

text \<open>Completing a dispatch settles the first queued command of the probe and nothing else.\<close>

inductive complete_step :: "string \<Rightarrow> string \<Rightarrow> string \<Rightarrow> dispatch_failure + unit \<Rightarrow> poller \<Rightarrow>
    history \<Rightarrow> poller \<Rightarrow> bool" for hub jwt uuid r p where
  no_command: "list_all (\<lambda>c. pc_node_id c \<noteq> uuid) (pending p) \<Longrightarrow>
    complete_step hub jwt uuid r p [] p"
| settled: "pending p = before @ c # after \<Longrightarrow> list_all (\<lambda>c. pc_node_id c \<noteq> uuid) before \<Longrightarrow>
    pc_node_id c = uuid \<Longrightarrow> settle hub jwt c (command_dedup p) r tr stays d \<Longrightarrow>
    complete_step hub jwt uuid r p tr
      (p\<lparr>pending := before @ (if stays then [c] else []) @ after, command_dedup := d\<rparr>)"

lemma traced_complete_dispatched:
  "traced E (complete_dispatched_for_probe hub jwt uuid r p) (complete_step hub jwt uuid r p)"
proof -
  define open_loop where "open_loop = (\<lambda>rest (tr :: history) (remaining, q).
     tr = [] \<and> q = p\<lparr>pending := []\<rparr> \<and> pending p = remaining @ rest \<and>
     list_all (\<lambda>c. pc_node_id c \<noteq> uuid) remaining)"
  define closed_loop where "closed_loop = (\<lambda>rest tr (remaining, q).
     \<exists>before c after stays d. pending p = before @ c # after @ rest \<and>
       list_all (\<lambda>c. pc_node_id c \<noteq> uuid) before \<and> pc_node_id c = uuid \<and>
       settle hub jwt c (command_dedup p) r tr stays d \<and>
       remaining = before @ (if stays then [c] else []) @ after \<and>
       q = p\<lparr>pending := [], command_dedup := d\<rparr>)"
  define inv where "inv = (\<lambda>rest tr (consumed, remaining, q).
     if consumed then closed_loop rest tr (remaining, q) else open_loop rest tr (remaining, q))"
  have start: "inv (pending p) [] (False, [], p\<lparr>pending := []\<rparr>)"
    by (simp add: inv_def open_loop_def)
  have pass: "inv rest tr (consumed, remaining @ [c], q)"
    if "inv (c # rest) tr (consumed, remaining, q)" "consumed \<or> pc_node_id c \<noteq> uuid"
    for c rest tr consumed remaining q
  proof (cases consumed)
    case False
    with that show ?thesis by (simp add: inv_def open_loop_def)
  next
    case True
    with that(1) obtain before c' after stays d where
      "pending p = before @ c' # (after @ [c]) @ rest" "list_all (\<lambda>c. pc_node_id c \<noteq> uuid) before"
      "pc_node_id c' = uuid" "settle hub jwt c' (command_dedup p) r tr stays d"
      "remaining @ [c] = before @ (if stays then [c'] else []) @ (after @ [c])"
      "q = p\<lparr>pending := [], command_dedup := d\<rparr>"
      by (auto simp: inv_def closed_loop_def)
    then have "closed_loop rest tr (remaining @ [c], q)" unfolding closed_loop_def by blast
    with True show ?thesis by (simp add: inv_def)
  qed
  have hit: "inv rest (tr @ tr') (True, (case (if stays then Some c else None) of
        Some command \<Rightarrow> remaining @ [command] | None \<Rightarrow> remaining), q\<lparr>command_dedup := d\<rparr>)"
    if "inv (c # rest) tr (False, remaining, q)" "pc_node_id c = uuid"
      "settle hub jwt c (command_dedup q) r tr' stays d" for c rest tr remaining q tr' stays d
  proof -
    from that(1) have o: "tr = []" "q = p\<lparr>pending := []\<rparr>" "pending p = remaining @ c # [] @ rest"
      "list_all (\<lambda>c. pc_node_id c \<noteq> uuid) remaining"
      by (simp_all add: inv_def open_loop_def)
    have "settle hub jwt c (command_dedup p) r (tr @ tr') stays d" using that(3) o by simp
    with o that(2) have "closed_loop rest (tr @ tr')
        (remaining @ (if stays then [c] else []) @ [], p\<lparr>pending := [], command_dedup := d\<rparr>)"
      unfolding closed_loop_def by blast
    then show ?thesis using o by (simp add: inv_def split: if_splits)
  qed
  have loop: "traced E (for_each (pending p)
       (\<lambda>command (consumed, remaining, p).
          if consumed \<or> pc_node_id command \<noteq> uuid
          then State_Monad.return (consumed, remaining @ [command], p)
          else do {
            (kept, p) \<leftarrow> dispatch_pending_command hub jwt command (\<lambda>_. State_Monad.return r) p;
            State_Monad.return (True,
              (case kept of Some command \<Rightarrow> remaining @ [command] | None \<Rightarrow> remaining), p)
          })
       (False, [], p\<lparr>pending := []\<rparr>)) (inv [])"
  proof (rule traced_for_each_rest [where I = inv, OF start], clarify, intro traced_if)
    fix c rest tr consumed remaining q
    assume "inv (c # rest) tr (consumed, remaining, q)" "consumed \<or> pc_node_id c \<noteq> uuid"
    then show "traced E (State_Monad.return (consumed, remaining @ [c], q)) (\<lambda>tr'. inv rest (tr @ tr'))"
      by (intro traced_return) (simp add: pass)
  next
    fix c rest tr consumed remaining q
    assume "inv (c # rest) tr (consumed, remaining, q)" "\<not> (consumed \<or> pc_node_id c \<noteq> uuid)"
    then have "inv (c # rest) tr (False, remaining, q)" "pc_node_id c = uuid" by auto
    note hit = hit [OF this]
    show "traced E (do {
        (kept, p) \<leftarrow> dispatch_pending_command hub jwt c (\<lambda>_. State_Monad.return r) q;
        State_Monad.return (True,
          (case kept of Some command \<Rightarrow> remaining @ [command] | None \<Rightarrow> remaining), p) })
      (\<lambda>tr'. inv rest (tr @ tr'))"
      by (rule traced_bind, rule traced_conseq [OF traced_dispatch_pending_command])
        (auto intro!: traced_return intro: hit)
  qed
  have finish: "complete_step hub jwt uuid r p tr (q\<lparr>pending := remaining\<rparr>)"
    if "inv [] tr (consumed, remaining, q)" for tr consumed remaining q
  proof (cases consumed)
    case False
    with that have "tr = []" "q\<lparr>pending := remaining\<rparr> = p" "list_all (\<lambda>c. pc_node_id c \<noteq> uuid) (pending p)"
      by (simp_all add: inv_def open_loop_def)
    then show ?thesis by (simp add: complete_step.no_command)
  next
    case True
    with that obtain before c after stays d where
      "pending p = before @ c # after" "list_all (\<lambda>c. pc_node_id c \<noteq> uuid) before"
      "pc_node_id c = uuid" "settle hub jwt c (command_dedup p) r tr stays d"
      "remaining = before @ (if stays then [c] else []) @ after"
      "q = p\<lparr>pending := [], command_dedup := d\<rparr>"
      by (auto simp: inv_def closed_loop_def)
    from complete_step.settled [OF this(1-4)] this(5,6) show ?thesis by (cases p) simp
  qed
  show ?thesis
    unfolding complete_dispatched_for_probe_def
    by (rule traced_bind, rule traced_conseq [OF loop], clarify, rule traced_return)
      (simp add: finish)
qed

section \<open>Applying a probe result\<close>

text \<open>
  What one result read from a probe does: nothing when its command already had a result applied or
  its status is none of the four that are reported; otherwise one acknowledgement, and the state
  changes only when the backend accepted it.
\<close>

inductive result_step :: "string \<Rightarrow> string \<Rightarrow> string \<Rightarrow> probe_motor_result \<Rightarrow> poller \<Rightarrow> history \<Rightarrow>
    poller \<Rightarrow> bool" for hub jwt uuid r p where
  already: "uuid_text (pmr_command_id r) \<in> applied_probe_results p \<Longrightarrow>
    result_step hub jwt uuid r p [] p"
| unreported: "probe_result_ack r = None \<Longrightarrow> result_step hub jwt uuid r p [] p"
| lost: "uuid_text (pmr_command_id r) \<notin> applied_probe_results p \<Longrightarrow>
    probe_result_ack r = Some (status, reason, message) \<Longrightarrow>
    ack_trace jwt (ack_for hub (uuid_text (pmr_command_id r)) uuid status reason message) tr False \<Longrightarrow>
    result_step hub jwt uuid r p tr p"
| applied: "uuid_text (pmr_command_id r) \<notin> applied_probe_results p \<Longrightarrow>
    probe_result_ack r = Some (status, reason, message) \<Longrightarrow>
    ack_trace jwt (ack_for hub (uuid_text (pmr_command_id r)) uuid status reason message) tr True \<Longrightarrow>
    result_step hub jwt uuid r p (tr @ [ClockRead t, ClockRead u])
      (p\<lparr>command_dedup := finish_at (clock_ms t) (clock_ms u) (uuid_text (pmr_command_id r))
           (command_dedup p),
         applied_probe_results := insert (uuid_text (pmr_command_id r)) (applied_probe_results p)\<rparr>)"

inductive_cases result_stepE: "result_step hub jwt uuid r p tr q"

lemma traced_apply_probe_motor_result:
  "traced E (apply_probe_motor_result hub jwt uuid r p) (result_step hub jwt uuid r p)"
  unfolding apply_probe_motor_result_def expand_command_id_text option.case
  by (intro traced_intro)
    (auto intro: result_step.intros [unfolded ack_for_def])

end
