(* ===== verification/Poller_Props.thy ===== *)
theory Poller_Props
  imports Poller_Spec
begin

text \<open>
  Properties of the command poller: traces that respect the radio gate and carry the hub's
  credentials (\<open>orderly\<close>), the invariant that ties the queue to the duplicate set and the applied
  results (\<open>poller_inv\<close>), and what each handler does with a command. \<open>perform\<close> is one call into the
  poller; statements over \<open>for_each ops (perform hub jwt)\<close> hold for any sequence of calls, with any
  answers from the backend and any clock.
\<close>

section \<open>Orderly traces\<close>

text \<open>Every call to the backend carries the hub's token and, where it has one, the hub's id.\<close>

fun addressed :: "string \<Rightarrow> string \<Rightarrow> event \<Rightarrow> bool" where
  "addressed hub jwt (InsertRpc authorization _ _) = (authorization = bearer jwt)"
| "addressed hub jwt (PullRpc authorization request _) =
     (authorization = bearer jwt \<and> pr_hub_id request = hub)"
| "addressed hub jwt (AckRpc authorization request _) =
     (authorization = bearer jwt \<and> ar_hub_id request = hub)"
| "addressed hub jwt _ = True"

definition orderly :: "string \<Rightarrow> string \<Rightarrow> history \<Rightarrow> bool" where
  "orderly hub jwt tr \<longleftrightarrow> gate_balanced tr \<and> list_all (addressed hub jwt) tr"

interpretation orderly: trace_monoid "orderly hub jwt" for hub jwt
  by unfold_locales (auto simp: orderly_def free.nil intro: free.append)

lemma orderly_clock [simp]: "orderly hub jwt (ClockRead t # tr) = orderly hub jwt tr"
  by (simp add: orderly_def gate_balanced_def)

lemma orderly_failed_exchange: "failed_exchange tr \<Longrightarrow> orderly hub jwt tr"
  by (auto simp: failed_exchange_def orderly_def gate_balanced_def)

lemma orderly_exchange:
  "gate_step call True = Some True \<Longrightarrow> addressed hub jwt call \<Longrightarrow> orderly hub jwt (exchange call)"
  by (simp add: exchange_def orderly_def gate_balanced_def)

lemma orderly_ack:
  "ack_trace jwt (ack_for hub command_id node_id status reason message) tr ok \<Longrightarrow> orderly hub jwt tr"
  by (auto simp: ack_trace_def ack_for_def intro: orderly_failed_exchange orderly_exchange)

lemma orderly_Nil [simp]: "orderly hub jwt []"
  by (rule orderly.nil)

lemma orderly_store_step: "store_step E hub jwt c p tr q \<Longrightarrow> orderly hub jwt tr"
  by (induction rule: store_step.induct) (auto intro!: orderly.append intro: orderly_ack)

lemma orderly_store_steps: "store_steps E hub jwt cs p tr q \<Longrightarrow> orderly hub jwt tr"
  by (induction rule: store_steps.induct) (auto intro!: orderly.append intro: orderly_store_step)

lemma orderly_sweep: "sweep hub jwt cs d tr ks d' \<Longrightarrow> orderly hub jwt tr"
  by (induction rule: sweep.induct) (auto intro!: orderly.append intro: orderly_ack)

lemma orderly_settle: "settle hub jwt c d r tr stays d' \<Longrightarrow> orderly hub jwt tr"
  by (induction rule: settle.induct) (auto intro!: orderly.append intro: orderly_ack)

lemma orderly_poll_step: "poll_step E hub jwt p tr q \<Longrightarrow> orderly hub jwt tr"
  by (induction rule: poll_step.induct)
    (auto intro!: orderly.append simp: pull_request_for_def
      intro: orderly_sweep orderly_store_steps orderly_failed_exchange orderly_exchange)

lemma orderly_complete_step: "complete_step hub jwt uuid r p tr q \<Longrightarrow> orderly hub jwt tr"
  by (induction rule: complete_step.induct) (auto intro: orderly_settle)

lemma orderly_result_step: "result_step hub jwt uuid r p tr q \<Longrightarrow> orderly hub jwt tr"
  by (induction rule: result_step.induct) (auto intro!: orderly.append intro: orderly_ack)

section \<open>The queue invariant\<close>

text \<open>
  The queue, the duplicate set and the applied results belong together: what is marked as being
  processed is queued; what is queued is being processed, unless a result for it was applied
  meanwhile; and no id that is not in the applied results is queued twice.
\<close>

definition queue_ok :: "pending_command list \<Rightarrow> dedup \<Rightarrow> string set \<Rightarrow> bool" where
  "queue_ok cs d applied \<longleftrightarrow>
     processing d \<subseteq> pc_command_id ` set cs \<and>
     pc_command_id ` set cs \<subseteq> processing d \<union> applied \<and>
     distinct (filter (\<lambda>k. k \<notin> applied) (map pc_command_id cs))"

definition dispatchable :: "pending_command \<Rightarrow> bool" where
  "dispatchable c \<longleftrightarrow> pc_action c = MOTOR_COMMAND_ACTION_STOP \<or>
     pc_action c = MOTOR_COMMAND_ACTION_RUN_FOR_DURATION \<and> 0 \<le> sint (pc_duration_ms c)"

definition poller_inv :: "poller \<Rightarrow> bool" where
  "poller_inv p \<longleftrightarrow> dedup_inv (command_dedup p) \<and> list_all dispatchable (pending p) \<and>
     queue_ok (pending p) (command_dedup p) (applied_probe_results p)"

lemma processing_finish [simp]: "processing (finish_at s n k d) = processing d - {k}"
  by (simp add: finish_at_def prune_at_def)

lemma processing_begin:
  "begin_at now k d = (b, d') \<Longrightarrow>
   processing d' = (if b = New then insert k (processing d) else processing d) \<and>
   (b = New \<longrightarrow> k \<notin> processing d)"
  by (auto simp: begin_at_def prune_at_def Let_def split: if_splits)

lemma dedup_inv_begin_pair: "begin_at now k d = (b, d') \<Longrightarrow> dedup_inv d \<Longrightarrow> dedup_inv d'"
  using dedup_inv_begin [of d now k] by simp

lemma queue_ok_processing: "processing d = processing d' \<Longrightarrow> queue_ok cs d a = queue_ok cs d' a"
  by (simp add: queue_ok_def)

lemma distinct_filter_remove:
  "distinct (filter P (xs @ k # ys)) \<Longrightarrow> distinct (filter P (xs @ ys)) \<and> (P k \<longrightarrow> k \<notin> set (xs @ ys))"
  by (auto split: if_splits)

lemma queue_ok_remove:
  "queue_ok (cs @ c # ds) d a \<Longrightarrow> queue_ok (cs @ ds) (finish_at s n (pc_command_id c) d) a"
proof -
  assume ok: "queue_ok (cs @ c # ds) d a"
  let ?k = "pc_command_id c" and ?ids = "pc_command_id ` set (cs @ ds)"
  from ok have sub: "processing d \<subseteq> insert ?k ?ids" "?ids \<subseteq> processing d \<union> a"
    by (auto simp: queue_ok_def)
  from ok distinct_filter_remove [of "\<lambda>k. k \<notin> a" "map pc_command_id cs" ?k "map pc_command_id ds"]
  have "distinct (filter (\<lambda>k. k \<notin> a) (map pc_command_id (cs @ ds)))"
    and once: "?k \<notin> a \<Longrightarrow> ?k \<notin> ?ids"
    by (simp_all add: queue_ok_def image_Un)
  moreover have "processing d - {?k} \<subseteq> ?ids" using sub(1) by blast
  moreover have "?ids \<subseteq> (processing d - {?k}) \<union> a" using sub(2) once by blast
  ultimately show ?thesis unfolding queue_ok_def processing_finish by blast
qed

lemma queue_ok_queue:
  "queue_ok cs d a \<Longrightarrow> begin_at now (pc_command_id c) d = (New, d') \<Longrightarrow> queue_ok (cs @ [c]) d' a"
  using processing_begin [of now "pc_command_id c" d New d'] by (auto simp: queue_ok_def)

lemma queue_ok_refuse:
  "queue_ok cs d a \<Longrightarrow> begin_at now k d = (New, d') \<Longrightarrow> queue_ok cs (finish_at s n k d') a"
  using processing_begin [of now k d New d'] by (auto simp: queue_ok_def)

lemma queue_ok_apply: "queue_ok cs d a \<Longrightarrow> queue_ok cs (finish_at s n k d) (insert k a)"
proof -
  have "filter (\<lambda>j. j \<notin> insert k a) ids = filter (\<lambda>j. j \<noteq> k) (filter (\<lambda>j. j \<notin> a) ids)" for ids
    by (induction ids) auto
  then show "queue_ok cs d a \<Longrightarrow> queue_ok cs (finish_at s n k d) (insert k a)"
    by (auto simp: queue_ok_def simp del: filter_filter)
qed

lemma dispatchable_accepted: "accepted E now c action \<Longrightarrow> dispatchable (pending_of action c)"
  by (induction rule: accepted.induct) (simp_all add: dispatchable_def pending_of_def)

lemma inv_store_step: "store_step E hub jwt c p tr q \<Longrightarrow> poller_inv p \<Longrightarrow> poller_inv q"
proof (induction rule: store_step.induct)
  case (duplicate t b d)
  with processing_begin [OF duplicate(1)] show ?case
    by (auto simp: poller_inv_def dedup_inv_begin_pair queue_ok_def)
next
  case (refused t d u status reason message tr ok v x)
  then show ?case
    by (auto simp: poller_inv_def dedup_inv_begin_pair intro: dedup_inv_finish queue_ok_refuse)
next
  case (queued t d u action)
  have id: "mc_command_id c = pc_command_id (pending_of action c)" by (simp add: pending_of_def)
  from queued show ?case
    by (auto simp: poller_inv_def dedup_inv_begin_pair dispatchable_accepted id intro: queue_ok_queue)
qed

lemma inv_store_steps: "store_steps E hub jwt cs p tr q \<Longrightarrow> poller_inv p \<Longrightarrow> poller_inv q"
  by (induction rule: store_steps.induct) (auto dest: inv_store_step)

lemma inv_sweep:
  "sweep hub jwt cs d tr ks d' \<Longrightarrow> dedup_inv d \<and> list_all dispatchable cs \<and> queue_ok (pre @ cs) d a \<Longrightarrow>
   dedup_inv d' \<and> list_all dispatchable ks \<and> queue_ok (pre @ ks) d' a"
proof (induction arbitrary: pre rule: sweep.induct)
  case (keep t c cs d tr ks d')
  from keep.IH [of "pre @ [c]"] keep.prems show ?case by simp
next
  case (drop t c atr ok cs u v d tr ks d')
  from drop.IH [of pre] drop.prems show ?case by (simp add: dedup_inv_finish queue_ok_remove)
qed simp

lemma inv_swept:
  "sweep hub jwt (pending p) (command_dedup p) tr ks d \<Longrightarrow> poller_inv p \<Longrightarrow>
   poller_inv (p\<lparr>pending := ks, command_dedup := d\<rparr>)"
  using inv_sweep [of hub jwt "pending p" "command_dedup p" tr ks d "[]" "applied_probe_results p"]
  by (simp add: poller_inv_def)

lemma inv_poll_step: "poll_step E hub jwt p tr q \<Longrightarrow> poller_inv p \<Longrightarrow> poller_inv q"
  by (induction rule: poll_step.induct) (auto dest: inv_swept inv_store_steps)

lemma inv_complete_step: "complete_step hub jwt uuid r p tr q \<Longrightarrow> poller_inv p \<Longrightarrow> poller_inv q"
  by (induction rule: complete_step.induct)
    (auto elim!: settleE simp: poller_inv_def intro: dedup_inv_finish queue_ok_remove)

lemma inv_result_step: "result_step hub jwt uuid r p tr q \<Longrightarrow> poller_inv p \<Longrightarrow> poller_inv q"
  by (induction rule: result_step.induct)
    (auto simp: poller_inv_def intro: dedup_inv_finish queue_ok_apply)

section \<open>Sequences of calls\<close>

datatype poller_op =
  Poll | Result string probe_motor_result | Complete string "dispatch_failure + unit"

definition perform :: "string \<Rightarrow> string \<Rightarrow> poller_op \<Rightarrow> poller \<Rightarrow> poller io" where
  "perform hub jwt op p = (case op of
     Poll \<Rightarrow> poll_once hub jwt p
   | Result uuid r \<Rightarrow> apply_probe_motor_result hub jwt uuid r p
   | Complete uuid r \<Rightarrow> complete_dispatched_for_probe hub jwt uuid r p)"

inductive op_step :: "env \<Rightarrow> string \<Rightarrow> string \<Rightarrow> poller \<Rightarrow> history \<Rightarrow> poller \<Rightarrow> bool" for E hub jwt p where
  poll: "poll_step E hub jwt p tr q \<Longrightarrow> op_step E hub jwt p tr q"
| result: "result_step hub jwt uuid r p tr q \<Longrightarrow> op_step E hub jwt p tr q"
| complete: "complete_step hub jwt uuid d p tr q \<Longrightarrow> op_step E hub jwt p tr q"

lemma traced_perform: "traced E (perform hub jwt op p) (op_step E hub jwt p)"
  unfolding perform_def
  by (cases op)
    (auto intro: op_step.intros traced_conseq [OF traced_poll_once]
      traced_conseq [OF traced_apply_probe_motor_result] traced_conseq [OF traced_complete_dispatched])

lemma orderly_op_step: "op_step E hub jwt p tr q \<Longrightarrow> orderly hub jwt tr"
  by (induction rule: op_step.induct)
    (auto intro: orderly_poll_step orderly_result_step orderly_complete_step)

lemma inv_op_step: "op_step E hub jwt p tr q \<Longrightarrow> poller_inv p \<Longrightarrow> poller_inv q"
  by (induction rule: op_step.induct)
    (auto intro: inv_poll_step inv_result_step inv_complete_step)

lemma inv_empty_poller: "poller_inv empty_poller"
  using dedup_inv_empty by (simp add: poller_inv_def empty_poller_def queue_ok_def empty_dedup_def)

text \<open>
  C10: every handler of the poller does exactly what its step relation says: storing a pulled
  command, sweeping the queue, polling, settling a dispatch, applying a probe result.
\<close>

theorem poller_refines_spec:
  "traced E (store_polled_command hub jwt c p) (store_step E hub jwt c p) \<and>
   traced E (expire_pending_commands hub jwt p) (\<lambda>tr q. \<exists>ks d.
     sweep hub jwt (pending p) (command_dedup p) tr ks d \<and> q = p\<lparr>pending := ks, command_dedup := d\<rparr>) \<and>
   traced E (poll_once hub jwt p) (poll_step E hub jwt p) \<and>
   traced E (complete_dispatched_for_probe hub jwt uuid d p) (complete_step hub jwt uuid d p) \<and>
   traced E (apply_probe_motor_result hub jwt uuid r p) (result_step hub jwt uuid r p)"
  by (intro conjI traced_store_polled_command traced_expire_pending_commands traced_poll_once
      traced_complete_dispatched traced_apply_probe_motor_result)

text \<open>
  C9: whatever calls are made into the poller, from its empty state, and whatever the backend, the
  probes and the clock answer, the queue holds only actions a probe can execute, no command is both
  being processed and remembered as processed, everything marked as being processed is queued,
  everything queued is being processed or has had a result applied, and no id without an applied
  result is queued twice.
\<close>

theorem poller_invariant:
  "traced E (for_each ops (perform hub jwt) empty_poller) (\<lambda>_. poller_inv)"
  by (rule traced_for_each [where I = "\<lambda>_. poller_inv"])
    (auto intro: inv_empty_poller traced_conseq [OF traced_perform] inv_op_step)

text \<open>
  In any sequence of calls the radio gate is locked and released in turn, never by a thread
  that already holds it, every connection and call to the backend is made while it is held, and
  every call carries the hub's bearer token and names the hub.
\<close>

theorem poller_orderly:
  "traced E (for_each ops (perform hub jwt) p) (\<lambda>tr _. orderly hub jwt tr)"
  by (rule orderly.stateless.loop) (rule traced_conseq [OF traced_perform], rule orderly_op_step)

section \<open>Reports about a command\<close>

text \<open>The backend accepted a report with this status for this command.\<close>

fun reported :: "string \<Rightarrow> motor_status set \<Rightarrow> event \<Rightarrow> bool" where
  "reported k statuses (AckRpc _ request (Inr _)) =
     (ar_command_id request = k \<and> ar_status request \<in> statuses)"
| "reported k statuses _ = False"

definition reports :: "string \<Rightarrow> motor_status set \<Rightarrow> history \<Rightarrow> nat" where
  "reports k statuses tr = length (filter (reported k statuses) tr)"

lemma reported_AckRpc:
  "reported k statuses (AckRpc a request r) =
     ((\<exists>c. r = Inr c) \<and> ar_command_id request = k \<and> ar_status request \<in> statuses)"
  by (cases r) auto

lemma reports_simps [simp]:
  "reports k S [] = 0"
  "reports k S (a @ b) = reports k S a + reports k S b"
  "reports k S (e # tr) = (if reported k S e then 1 else 0) + reports k S tr"
  by (simp_all add: reports_def)

lemma reports_failed_exchange: "failed_exchange tr \<Longrightarrow> reports k S tr = 0"
  by (auto simp: failed_exchange_def)

lemma reports_exchange: "reports k S (exchange call) = (if reported k S call then 1 else 0)"
  by (simp add: exchange_def)

lemma reports_ack:
  "ack_trace jwt (ack_for hub j node status reason message) tr ok \<Longrightarrow>
   reports k S tr = (if ok \<and> j = k \<and> status \<in> S then 1 else 0)"
  by (auto simp: ack_trace_def ack_for_def reports_failed_exchange reports_exchange reported_AckRpc)

definition progress :: "motor_status set" where
  "progress = {StatusExecuting, StatusSucceeded}"

lemma refusal_status: "refusal E now c status reason message \<Longrightarrow> status \<in> {StatusExpired, StatusFailed}"
  by (induction rule: refusal.induct) auto

lemma progress_store_step: "store_step E hub jwt c p tr q \<Longrightarrow>
    reports k progress tr = 0 \<and> applied_probe_results q = applied_probe_results p"
  by (induction rule: store_step.induct)
    (auto dest!: refusal_status simp: reports_ack progress_def)

lemma progress_store_steps: "store_steps E hub jwt cs p tr q \<Longrightarrow>
    reports k progress tr = 0 \<and> applied_probe_results q = applied_probe_results p"
  by (induction rule: store_steps.induct) (auto dest: progress_store_step)

lemma progress_sweep: "sweep hub jwt cs d tr ks d' \<Longrightarrow> reports k progress tr = 0"
  by (induction rule: sweep.induct) (auto simp: reports_ack progress_def)

lemma progress_op_step: "op_step E hub jwt p tr q \<Longrightarrow>
    applied_probe_results p \<subseteq> applied_probe_results q \<and>
    reports k progress tr \<le>
      (if k \<in> applied_probe_results q \<and> k \<notin> applied_probe_results p then 1 else 0)"
proof (induction rule: op_step.induct)
  case (poll tr q)
  then show ?case
  proof cases
    case (pull_failed tr ks d tr')
    with progress_sweep [OF pull_failed(3), of k] show ?thesis
      by (auto simp: reports_failed_exchange reports_exchange)
  next
    case (pulled tr ks d cs tr')
    with progress_sweep [OF pulled(2), of k] progress_store_steps [OF pulled(3), of k] show ?thesis
      by (simp add: reports_exchange)
  qed
next
  case (result uuid r tr q)
  then show ?case by (induction rule: result_step.induct) (auto simp: reports_ack)
next
  case (complete uuid d tr q)
  then show ?case
    by (induction rule: complete_step.induct) (auto elim!: settleE simp: reports_ack progress_def)
qed

lemma traced_progress:
  "traced E (for_each ops (perform hub jwt) empty_poller) (\<lambda>tr p.
     reports k progress tr \<le> (if k \<in> applied_probe_results p then 1 else 0))"
proof (rule traced_for_each)
  fix op tr and p :: poller
  assume "reports k progress tr \<le> (if k \<in> applied_probe_results p then 1 else 0)"
  then show "traced E (perform hub jwt op p) (\<lambda>tr' q.
      reports k progress (tr @ tr') \<le> (if k \<in> applied_probe_results q then 1 else 0))"
    by (intro traced_conseq [OF traced_perform])
      (auto dest!: progress_op_step [where k = k] split: if_splits)
qed simp

text \<open>
  C18: the backend accepts at most one report of progress (executing or succeeded) per command id,
  in any sequence of calls, and one only when the id is in the set of applied results.
\<close>

theorem one_progress_report:
  "traced E (for_each ops (perform hub jwt) empty_poller) (\<lambda>tr p.
     reports k progress tr \<le> (if k \<in> applied_probe_results p then 1 else 0))"
  by (rule traced_progress)

section \<open>What becomes of a command\<close>

lemma ack_request_in_trace:
  assumes "ack_trace jwt (ack_for hub k node status reason message) tr ok" "AckRpc a request r \<in> set tr"
  shows "request = ack_for hub k node status reason message"
  using assms by (auto simp: ack_trace_def failed_exchange_def exchange_def)

lemma ack_for_fields [simp]:
  "ar_command_id (ack_for hub k node status reason message) = k"
  "ar_hub_id (ack_for hub k node status reason message) = hub"
  "ar_node_id (ack_for hub k node status reason message) = node"
  "ar_status (ack_for hub k node status reason message) = status"
  "ar_reason_code (ack_for hub k node status reason message) = reason"
  "ar_reason_message (ack_for hub k node status reason message) = message"
  by (simp_all add: ack_for_def)

text \<open>
  C15: storing a pulled command never loses it silently and never answers a duplicate. An id that
  is being processed or was processed within the retention time changes nothing but the pruned
  set and causes no call; any other command is queued, last, with no call, or it is finished and
  exactly one report, expired or failed, is attempted for it.
\<close>

theorem store_command_outcome:
  "traced E (store_polled_command hub jwt c p) (\<lambda>tr q. \<exists>t rest. tr = ClockRead t # rest \<and>
     (if fst (begin_at (clock_ms t) (mc_command_id c) (command_dedup p)) \<noteq> New
      then rest = [] \<and> pending q = pending p \<and>
        processing (command_dedup q) = processing (command_dedup p)
      else mc_command_id c \<in> processing (command_dedup q) \<and>
        (\<exists>u action. rest = [ClockRead u] \<and> accepted E (clock_ms u) c action \<and>
           pending q = pending p @ [pending_of action c])
        \<or> mc_command_id c \<notin> processing (command_dedup q) \<and> pending q = pending p \<and>
        (\<exists>u v x status reason message atr ok. refusal E (clock_ms u) c status reason message \<and>
           ack_trace jwt (ack_for hub (mc_command_id c) (mc_node_id c) status reason message) atr ok \<and>
           rest = ClockRead u # atr @ [ClockRead v, ClockRead x])))"
proof (rule traced_conseq [OF traced_store_polled_command])
  fix tr q assume "store_step E hub jwt c p tr q"
  then show "\<exists>t rest. tr = ClockRead t # rest \<and>
     (if fst (begin_at (clock_ms t) (mc_command_id c) (command_dedup p)) \<noteq> New
      then rest = [] \<and> pending q = pending p \<and>
        processing (command_dedup q) = processing (command_dedup p)
      else mc_command_id c \<in> processing (command_dedup q) \<and>
        (\<exists>u action. rest = [ClockRead u] \<and> accepted E (clock_ms u) c action \<and>
           pending q = pending p @ [pending_of action c])
        \<or> mc_command_id c \<notin> processing (command_dedup q) \<and> pending q = pending p \<and>
        (\<exists>u v x status reason message atr ok. refusal E (clock_ms u) c status reason message \<and>
           ack_trace jwt (ack_for hub (mc_command_id c) (mc_node_id c) status reason message) atr ok \<and>
           rest = ClockRead u # atr @ [ClockRead v, ClockRead x]))"
    by cases (fastforce dest: processing_begin)+
qed

text \<open>A command is accepted or refused, never both.\<close>

lemma accepted_not_refused: "accepted E now c action \<Longrightarrow> \<not> refusal E now c status reason message"
  by (induction rule: accepted.induct) (auto elim: refusal.cases)

lemma accepted_or_refused:
  "(\<exists>action. accepted E now c action) \<or> (\<exists>status reason message. refusal E now c status reason message)"
proof -
  consider "action_try_from E (mc_action c) = Some ActionRunForDuration"
    | "action_try_from E (mc_action c) = Some ActionStop"
    | "action_try_from E (mc_action c) \<in> {None, Some ActionUnspecified}"
    by (cases "action_try_from E (mc_action c)"; cases "the (action_try_from E (mc_action c))") auto
  then show ?thesis
    by cases (metis accepted.intros refusal.intros not_less)+
qed

lemma sweep_filter:
  "sweep hub jwt cs d tr ks d' \<Longrightarrow> \<forall>t. ClockRead t \<in> set tr \<longrightarrow> clock_ms t = now \<Longrightarrow>
   ks = filter (\<lambda>c. \<not> due now c) cs"
  by (induction rule: sweep.induct) (auto simp: ack_trace_def)

text \<open>A report about a command of the list that was due at a clock reading of the trace.\<close>

definition due_report :: "pending_command list \<Rightarrow> history \<Rightarrow> ack_request \<Rightarrow> bool" where
  "due_report cs tr request \<longleftrightarrow> ar_status request = StatusExpired \<and>
     (\<exists>c\<in>set cs. (\<exists>t. ClockRead t \<in> set tr \<and> due (clock_ms t) c) \<and>
        ar_command_id request = pc_command_id c \<and> ar_node_id request = pc_node_id c)"

lemma due_report_mono:
  "due_report cs tr request \<Longrightarrow> set cs \<subseteq> set cs' \<Longrightarrow> set tr \<subseteq> set tr' \<Longrightarrow> due_report cs' tr' request"
  unfolding due_report_def by blast

lemma sweep_reports:
  "sweep hub jwt cs d tr ks d' \<Longrightarrow> AckRpc a request r \<in> set tr \<Longrightarrow> due_report cs tr request"
proof (induction rule: sweep.induct)
  case (keep t c cs d tr ks d')
  then show ?case by (auto intro: due_report_mono)
next
  case (drop t c atr ok cs u v d tr ks d')
  have "due_report [c] [ClockRead t] (ack_for hub (pc_command_id c) (pc_node_id c) StatusExpired
      ReasonExpired ''command expired before probe became available'')"
    using drop(1) by (auto simp: due_report_def)
  with drop show ?case using ack_request_in_trace [OF drop(2)]
    by (auto elim!: due_report_mono)
qed simp

text \<open>
  The sweep keeps the commands that are not due, in their order, and reports as expired only
  commands of the queue that were due at a clock reading of the sweep.
\<close>

theorem sweep_keeps_live_commands:
  "traced E (expire_pending_commands hub jwt p) (\<lambda>tr q.
     ((\<forall>t. ClockRead t \<in> set tr \<longrightarrow> clock_ms t = now) \<longrightarrow>
        pending q = filter (\<lambda>c. \<not> due now c) (pending p)) \<and>
     (\<forall>a request r. AckRpc a request r \<in> set tr \<longrightarrow> due_report (pending p) tr request))"
  by (rule traced_conseq [OF traced_expire_pending_commands]) (auto dest: sweep_filter sweep_reports)

definition sample_command :: "string \<Rightarrow> i64 \<Rightarrow> pending_command" where
  "sample_command k expires = \<lparr>pc_command_id = k, pc_node_id = ''n'', pc_action = 1,
     pc_duration_ms = 100, pc_expires_at = expires\<rparr>"

theorem sweep_keeps_live_commands_witness:
  "pending (fst (run_state (expire_pending_commands ''h'' ''t''
     (empty_poller\<lparr>pending := [sample_command ''a'' 900, sample_command ''b'' 5000]\<rparr>)) calm_world))
   = [sample_command ''b'' 5000]"
proof -
  let ?m = "expire_pending_commands ''h'' ''t''
    (empty_poller\<lparr>pending := [sample_command ''a'' 900, sample_command ''b'' 5000]\<rparr>)"
  have tr: "list_all (\<lambda>e. case e of ClockRead t \<Rightarrow> clock_ms t = 1000 | _ \<Rightarrow> True)
      (hist (snd (run_state ?m calm_world)))"
    by code_simp
  from traced_fresh (1) [of calm_world ?m, OF sweep_keeps_live_commands, where now1 = 1000] tr
  show ?thesis
    by (auto simp: list_all_iff due_def sample_command_def empty_poller_def clock_ms_def
        split: event.splits)
qed

lemma find_first: "list_all (\<lambda>x. \<not> P x) xs \<Longrightarrow> P c \<Longrightarrow> find P (xs @ c # ys) = Some c"
  by (induction xs) simp_all

lemma find_none: "list_all (\<lambda>x. \<not> P x) xs \<Longrightarrow> find P xs = None"
  by (induction xs) simp_all

lemma peek_first:
  "pending p = before @ c # after \<Longrightarrow> list_all (\<lambda>c. pc_node_id c \<noteq> uuid) before \<Longrightarrow>
   pc_node_id c = uuid \<Longrightarrow> peek_pending_for_probe_uuid uuid p = Some (request_of c)"
  by (simp add: peek_pending_for_probe_uuid_def find_first)

lemma peek_none:
  "list_all (\<lambda>c. pc_node_id c \<noteq> uuid) (pending p) \<Longrightarrow> peek_pending_for_probe_uuid uuid p = None"
  by (simp add: peek_pending_for_probe_uuid_def find_none)

text \<open>What a settled command is told to the backend, and when it leaves the queue.\<close>

lemma settle_requests:
  assumes "settle hub jwt c d result tr stays d'" "AckRpc a req r \<in> set tr"
  shows "ar_command_id req = pc_command_id c \<and> ar_node_id req = pc_node_id c \<and>
      result = (if ar_status req = StatusSentToProbe then Inr () else Inl DispatchExpired)"
  using assms
  by cases (auto dest!: ack_request_in_trace)

lemma settle_stays:
  assumes "settle hub jwt c d result tr stays d'"
  shows "stays \<longleftrightarrow> (\<exists>e. result = Inl (BleWriteFailed e)) \<or>
      result = Inr () \<and> reports (pc_command_id c) {StatusSentToProbe} tr = 0"
  using assms by cases (auto simp: reports_ack)

lemma settle_processing:
  assumes "settle hub jwt c d result tr stays d'"
  shows "if stays then d' = d else pc_command_id c \<notin> processing d'"
  using assms by cases auto

text \<open>
  C14: after a probe session, completing the dispatch concerns exactly the command that was offered
  to the probe, the first one queued for it: without one nothing happens; with one, the rest of the
  queue is left alone in order, the reports attempted are about that command only, sent to the probe
  after a successful write and expired after an expiry, and the command stays queued exactly when
  the write failed or the report of a successful write was not accepted.
\<close>

theorem complete_settles_peeked:
  "traced E (complete_dispatched_for_probe hub jwt uuid result p) (\<lambda>tr q.
     case peek_pending_for_probe_uuid uuid p of
       None \<Rightarrow> tr = [] \<and> q = p
     | Some request \<Rightarrow>
         (\<forall>a req r. AckRpc a req r \<in> set tr \<longrightarrow> ar_command_id req = dr_command_id request \<and>
            ar_node_id req = uuid \<and>
            result = (if ar_status req = StatusSentToProbe then Inr () else Inl DispatchExpired)) \<and>
         (if (\<exists>e. result = Inl (BleWriteFailed e)) \<or>
             result = Inr () \<and> reports (dr_command_id request) {StatusSentToProbe} tr = 0
          then q = p
          else dr_command_id request \<notin> processing (command_dedup q) \<and>
            (\<exists>before c after. pending p = before @ c # after \<and> request_of c = request \<and>
              pc_node_id c = uuid \<and> list_all (\<lambda>c. pc_node_id c \<noteq> uuid) before \<and>
              pending q = before @ after)))" (is "traced E _ ?post")
proof (rule traced_conseq [OF traced_complete_dispatched])
  fix tr q assume "complete_step hub jwt uuid result p tr q"
  then show "?post tr q"
  proof cases
    case no_command
    then show ?thesis by (simp add: peek_none)
  next
    case (settled before c after stays d)
    note reports = settle_requests [OF settled(5)] settle_stays [OF settled(5)]
      settle_processing [OF settled(5)]
    have p: "p\<lparr>pending := before @ c # after, command_dedup := command_dedup p\<rparr> = p"
      using settled(2) by (cases p) simp
    have id: "dr_command_id (request_of c) = pc_command_id c" by (simp add: request_of_def)
    show ?thesis
    proof (cases stays)
      case True
      with settled reports p show ?thesis by (simp add: peek_first [OF settled(2-4)] id)
    next
      case False
      with settled reports show ?thesis by (auto simp: peek_first [OF settled(2-4)] id)
    qed
  qed
qed

theorem complete_settles_peeked_witness:
  "pending (fst (run_state (complete_dispatched_for_probe ''h'' ''t'' ''n'' (Inr ())
     (empty_poller\<lparr>pending := [sample_command ''b'' 5000]\<rparr>)) calm_world)) = []"
proof -
  let ?p = "empty_poller\<lparr>pending := [sample_command ''b'' 5000]\<rparr>"
  let ?m = "complete_dispatched_for_probe ''h'' ''t'' ''n'' (Inr ()) ?p"
  have peek: "peek_pending_for_probe_uuid ''n'' ?p = Some (request_of (sample_command ''b'' 5000))"
    by (simp add: peek_pending_for_probe_uuid_def sample_command_def)
  have sent: "reports ''b'' {StatusSentToProbe} (hist (snd (run_state ?m calm_world))) = 1"
    by code_simp
  have id: "dr_command_id (request_of (sample_command ''b'' 5000)) = ''b''"
    by (simp add: request_of_def sample_command_def)
  from traced_fresh (1) [of calm_world ?m, OF complete_settles_peeked] sent
  show ?thesis by (auto simp: peek id Cons_eq_append_conv)
qed

text \<open>
  The report a result calls for, by the numbers of \<open>control.v1\<close> that a probe sends (the comments of
  \<open>src/config.rs\<close>): it repeats the command id, names the probe, and has the status the probe sent; a failure
  gives the reason the probe sent, as far as it is one of the two a probe has.
\<close>

fun status_number :: "motor_status \<Rightarrow> u8" where
  "status_number StatusSentToProbe = 3"
| "status_number StatusExecuting = 4"
| "status_number StatusSucceeded = 5"
| "status_number StatusFailed = 6"
| "status_number StatusExpired = 7"

fun report_message :: "motor_status \<Rightarrow> string" where
  "report_message StatusSentToProbe = []"
| "report_message StatusExecuting = ''probe started executing motor command''"
| "report_message StatusSucceeded = ''probe completed motor command successfully''"
| "report_message StatusFailed = ''probe reported motor command failure''"
| "report_message StatusExpired = ''probe reported command expired before execution''"

fun report_reason :: "motor_status \<Rightarrow> u8 \<Rightarrow> motor_reason" where
  "report_reason StatusFailed reason =
     (case map_of [(7, ReasonUartTimeout), (8, ReasonUartRejected)] reason of
        Some known \<Rightarrow> known | None \<Rightarrow> ReasonBleWriteFailed)"
| "report_reason StatusExpired _ = ReasonExpired"
| "report_reason _ _ = ReasonNone"

definition reportable :: "probe_motor_result \<Rightarrow> bool" where
  "reportable r \<longleftrightarrow> pmr_status r \<in> status_number ` {StatusExecuting, StatusSucceeded, StatusFailed, StatusExpired}"

definition result_report :: "string \<Rightarrow> string \<Rightarrow> probe_motor_result \<Rightarrow> ack_request \<Rightarrow> bool" where
  "result_report hub uuid r req \<longleftrightarrow>
     ar_command_id req = uuid_text (pmr_command_id r) \<and> ar_hub_id req = hub \<and> ar_node_id req = uuid \<and>
     status_number (ar_status req) = pmr_status r \<and>
     ar_reason_code req = report_reason (ar_status req) (pmr_reason_code r) \<and>
     ar_reason_message req = report_message (ar_status req)"

lemma unreportable_ack: "probe_result_ack r = None \<Longrightarrow> \<not> reportable r"
  by (auto simp: probe_result_ack_def reportable_def split: if_splits)

lemma reportable_ack:
  assumes "probe_result_ack r = Some (status, reason, message)"
  shows "reportable r \<and> result_report hub uuid r (ack_for hub (uuid_text (pmr_command_id r)) uuid status reason message)"
  using assms
  by (auto simp: probe_result_ack_def reportable_def result_report_def ack_for_def split: if_splits)


definition sample_result :: "u8 \<Rightarrow> probe_motor_result" where
  "sample_result status = \<lparr>pmr_status = status, pmr_reason_code = 1, pmr_command_id = replicate 16 0x0a\<rparr>"


text \<open>The sweep attempts a report for every command that is due all the time.\<close>

lemma sweep_reports_due:
  "sweep hub jwt cs d tr ks d' \<Longrightarrow> c \<in> set cs \<Longrightarrow> \<forall>t. ClockRead t \<in> set tr \<longrightarrow> due (clock_ms t) c \<Longrightarrow>
   \<exists>a atr b ok. tr = a @ atr @ b \<and>
     ack_trace jwt (ack_for hub (pc_command_id c) (pc_node_id c) StatusExpired ReasonExpired
       ''command expired before probe became available'') atr ok"
proof (induction rule: sweep.induct)
  case (keep t c' cs d tr ks d')
  then obtain a atr b ok where "tr = a @ atr @ b" "ack_trace jwt (ack_for hub (pc_command_id c)
      (pc_node_id c) StatusExpired ReasonExpired ''command expired before probe became available'') atr ok"
    by auto
  then show ?case by (metis append_Cons)
next
  case (drop t c' atr ok cs u v d tr ks d')
  show ?case
  proof (cases "c' = c")
    case True
    with drop(2) show ?thesis by (metis append_Cons append_Nil)
  next
    case False
    with drop obtain a atr' b ok where "tr = a @ atr' @ b" "ack_trace jwt (ack_for hub (pc_command_id c)
        (pc_node_id c) StatusExpired ReasonExpired ''command expired before probe became available'') atr' ok"
      by auto
    then show ?thesis by (metis append_Cons append_assoc)
  qed
qed simp

text \<open>
  C38: a limit of the poller as it is written: a result does not take its command out of the queue.
  A sweep after any result, also after an accepted success, still reports the command as expired
  once its expiry has passed.
\<close>

theorem expired_after_result:
  assumes run: "run_state (do { q \<leftarrow> apply_probe_motor_result hub jwt uuid r p;
      expire_pending_commands hub jwt q }) w = (q, w\<lparr>hist := hist w @ tr\<rparr>)"
    and c: "c \<in> set (pending p)" and late: "\<forall>t. ClockRead t \<in> set tr \<longrightarrow> due (clock_ms t) c"
  shows "\<exists>a atr b ok. tr = a @ atr @ b \<and>
     ack_trace jwt (ack_for hub (pc_command_id c) (pc_node_id c) StatusExpired ReasonExpired
       ''command expired before probe became available'') atr ok"
proof -
  have "traced (env_of w) (do { q \<leftarrow> apply_probe_motor_result hub jwt uuid r p;
      expire_pending_commands hub jwt q }) (\<lambda>tr _. \<exists>a b ks d d'. tr = a @ b \<and>
        sweep hub jwt (pending p) d b ks d')"
  proof (rule traced_bind, rule traced_conseq [OF traced_apply_probe_motor_result],
      rule traced_conseq [OF traced_expire_pending_commands], elim exE conjE)
    fix a q b s ks d'
    assume "result_step hub jwt uuid r p a q"
      and "sweep hub jwt (pending q) (command_dedup q) b ks d'"
    moreover from this(1) have "pending q = pending p" by cases simp_all
    ultimately show "\<exists>a' b' ks d d'. a @ b = a' @ b' \<and> sweep hub jwt (pending p) d b' ks d'"
      by metis
  qed
  from traced_run [OF this run] obtain a b ks d d' where tr: "tr = a @ b"
    and sweep: "sweep hub jwt (pending p) d b ks d'" by auto
  from late tr have "\<forall>t. ClockRead t \<in> set b \<longrightarrow> due (clock_ms t) c" by simp
  from sweep_reports_due [OF sweep c this] obtain a' atr b' ok where "b = a' @ atr @ b'"
    and ack: "ack_trace jwt (ack_for hub (pc_command_id c) (pc_node_id c) StatusExpired ReasonExpired
       ''command expired before probe became available'') atr ok"
    by auto
  with tr have "tr = (a @ a') @ atr @ b'" by simp
  with ack show ?thesis by blast
qed

theorem expired_after_result_witness:
  "\<exists>tr a atr b ok. tr = hist (snd (run_state (do {
        q \<leftarrow> apply_probe_motor_result ''h'' ''t'' ''n'' (sample_result 5)
          (empty_poller\<lparr>pending := [sample_command ''0a0a0a0a-0a0a-0a0a-0a0a-0a0a0a0a0a0a'' 900]\<rparr>);
        expire_pending_commands ''h'' ''t'' q }) calm_world)) \<and>
     reports ''0a0a0a0a-0a0a-0a0a-0a0a-0a0a0a0a0a0a'' {StatusSucceeded} tr = 1 \<and>
     tr = a @ atr @ b \<and> ack_trace ''t'' (ack_for ''h'' ''0a0a0a0a-0a0a-0a0a-0a0a-0a0a0a0a0a0a'' ''n''
       StatusExpired ReasonExpired ''command expired before probe became available'') atr ok"
proof -
  let ?c = "sample_command ''0a0a0a0a-0a0a-0a0a-0a0a-0a0a0a0a0a0a'' 900"
  let ?p = "empty_poller\<lparr>pending := [?c]\<rparr>"
  let ?m = "do { q \<leftarrow> apply_probe_motor_result ''h'' ''t'' ''n'' (sample_result 5) ?p;
      expire_pending_commands ''h'' ''t'' q }"
  have tr: "list_all (\<lambda>e. case e of ClockRead t \<Rightarrow> clock_ms t = 1000 | _ \<Rightarrow> True)
      (hist (snd (run_state ?m calm_world)))"
    by code_simp
  have one: "reports ''0a0a0a0a-0a0a-0a0a-0a0a-0a0a0a0a0a0a'' {StatusSucceeded}
      (hist (snd (run_state ?m calm_world))) = 1"
    by code_simp
  have "traced calm_env ?m (\<lambda>_ _. True)"
    by (rule traced_bind, rule traced_conseq [OF traced_apply_probe_motor_result],
        rule traced_conseq [OF traced_expire_pending_commands]) simp
  from traced_fresh (2) [of calm_world ?m, OF this [folded calm_world_simps(1)]]
  have run: "run_state ?m calm_world = (fst (run_state ?m calm_world),
      calm_world\<lparr>hist := hist calm_world @ hist (snd (run_state ?m calm_world))\<rparr>)"
    by simp
  have "\<forall>t. ClockRead t \<in> set (hist (snd (run_state ?m calm_world))) \<longrightarrow> due (clock_ms t) ?c"
    using tr by (auto simp: list_all_iff due_def sample_command_def split: event.splits)
  from expired_after_result [OF run _ this] one show ?thesis
    by (auto simp: empty_poller_def sample_command_def)
qed

end
