(* ===== verification/Utf8.thy ===== *)
theory Utf8
  imports Hub_Prelude
begin

text \<open>
  The two functions of Rust's standard library by which the hub reads texts sent by probes:
  \<open>core::str::from_utf8\<close> (whether bytes are valid UTF-8, \<open>from_utf8_ok\<close>) and
  \<open>String::from_utf8_lossy\<close> (every maximal invalid start replaced by U+FFFD). Both follow the
  standard library's chunking: \<open>utf8_chunks\<close> splits a text into its valid sequences and its invalid
  pieces. A lossy text is always valid, and a valid text is unchanged.
\<close>

section \<open>Sequences\<close>

definition continuation :: "u8 \<Rightarrow> bool" where
  "continuation b \<longleftrightarrow> 0x80 \<le> b \<and> b \<le> 0xBF"

text \<open>The width announced by a first byte; 0 for a byte that starts nothing.\<close>

definition utf8_char_width :: "u8 \<Rightarrow> nat" where
  "utf8_char_width b =
     (if b < 0x80 then 1
      else if 0xC2 \<le> b \<and> b \<le> 0xDF then 2
      else if 0xE0 \<le> b \<and> b \<le> 0xEF then 3
      else if 0xF0 \<le> b \<and> b \<le> 0xF4 then 4
      else 0)"

text \<open>Which second bytes a three- or four-byte sequence admits.\<close>

definition second_ok :: "u8 \<Rightarrow> u8 \<Rightarrow> bool" where
  "second_ok b c \<longleftrightarrow>
     (if b = 0xE0 then 0xA0 \<le> c \<and> c \<le> 0xBF
      else if b = 0xED then 0x80 \<le> c \<and> c \<le> 0x9F
      else if b = 0xF0 then 0x90 \<le> c \<and> c \<le> 0xBF
      else if b = 0xF4 then 0x80 \<le> c \<and> c \<le> 0x8F
      else continuation c)"

text \<open>A byte past the end reads as 0, which continues nothing.\<close>

definition byte_at :: "bytes \<Rightarrow> nat \<Rightarrow> u8" where
  "byte_at bs i = (if i < length bs then bs ! i else 0)"

text \<open>
  The first sequence of a non-empty text: whether it is valid, and how many bytes it takes (an
  invalid one: the longest start of a valid sequence, at least one byte).
\<close>

definition utf8_first :: "bytes \<Rightarrow> bool \<times> nat" where
  "utf8_first bs = (let b = byte_at bs 0; w = utf8_char_width b in
     if w = 1 then (True, 1)
     else if w = 2 then (if continuation (byte_at bs 1) then (True, 2) else (False, 1))
     else if w = 3 then
       (if \<not> second_ok b (byte_at bs 1) then (False, 1)
        else if \<not> continuation (byte_at bs 2) then (False, 2)
        else (True, 3))
     else if w = 4 then
       (if \<not> second_ok b (byte_at bs 1) then (False, 1)
        else if \<not> continuation (byte_at bs 2) then (False, 2)
        else if \<not> continuation (byte_at bs 3) then (False, 3)
        else (True, 4))
     else (False, 1))"

lemma utf8_first_pos: "utf8_first bs = (ok, n) \<Longrightarrow> 0 < n"
  by (auto simp: utf8_first_def Let_def split: if_splits)

lemma second_ok_pos: "second_ok b c \<Longrightarrow> 0x80 \<le> c"
  by (auto simp: second_ok_def continuation_def split: if_splits intro: order_trans [rotated])

lemma byte_at_in: "0x80 \<le> byte_at bs i \<Longrightarrow> i < length bs"
  by (simp add: byte_at_def split: if_splits)

lemma utf8_first_le:
  assumes "utf8_first bs = (ok, n)" "bs \<noteq> []"
  shows "n \<le> length bs"
proof -
  have cont: "i < length bs" if "continuation (byte_at bs i)" for i
    using that by (intro byte_at_in) (simp add: continuation_def)
  have second: "1 < length bs" if "second_ok b (byte_at bs 1)" for b
    using that by (intro byte_at_in) (rule second_ok_pos)
  have "1 \<le> length bs" using assms(2) by (simp add: Suc_le_eq)
  with assms(1) cont [of 1] cont [of 2] cont [of 3] second [of "byte_at bs 0"] show ?thesis
    by (auto simp: utf8_first_def Let_def split: if_splits)
qed

function utf8_chunks :: "bytes \<Rightarrow> (bool \<times> bytes) list" where
  "utf8_chunks bs =
     (if bs = [] then []
      else let (ok, n) = utf8_first bs in (ok, take n bs) # utf8_chunks (drop n bs))"
  by auto
termination
  by (relation "measure length") (auto dest!: utf8_first_pos [OF sym])

declare utf8_chunks.simps [simp del]

definition from_utf8_ok :: "bytes \<Rightarrow> bool" where
  "from_utf8_ok bs \<longleftrightarrow> list_all fst (utf8_chunks bs)"

definition REPLACEMENT :: bytes where "REPLACEMENT = [0xEF, 0xBF, 0xBD]"

definition from_utf8_lossy :: "bytes \<Rightarrow> bytes" where
  "from_utf8_lossy bs = concat (map (\<lambda>(ok, c). if ok then c else REPLACEMENT) (utf8_chunks bs))"

lemma concat_utf8_chunks: "concat (map snd (utf8_chunks bs)) = bs"
proof (induction bs rule: utf8_chunks.induct)
  case (1 bs)
  then show ?case by (subst utf8_chunks.simps) (auto simp: Let_def split: prod.splits)
qed

lemma from_utf8_lossy_valid: "from_utf8_ok bs \<Longrightarrow> from_utf8_lossy bs = bs"
proof -
  assume "from_utf8_ok bs"
  then have "map (\<lambda>(ok, c). if ok then c else REPLACEMENT) (utf8_chunks bs) = map snd (utf8_chunks bs)"
    by (auto simp: from_utf8_ok_def list_all_iff)
  then show ?thesis by (simp only: from_utf8_lossy_def concat_utf8_chunks)
qed

text \<open>A valid sequence is found again whatever follows it.\<close>

lemma utf8_first_valid_append:
  assumes "utf8_first bs = (True, n)" "bs \<noteq> []"
  shows "utf8_first (take n bs @ cs) = (True, n)"
proof -
  from utf8_first_le [OF assms] utf8_first_pos [OF assms(1)] have n: "n \<le> length bs" "0 < n" .
  then have "byte_at (take n bs @ cs) i = byte_at bs i" if "i < n" for i
    using that by (simp add: byte_at_def nth_append)
  with assms(1) n show ?thesis
    by (auto simp: utf8_first_def Let_def split: if_splits)
qed

lemma utf8_chunks_valid_append:
  assumes "utf8_first bs = (True, n)" "bs \<noteq> []"
  shows "utf8_chunks (take n bs @ cs) = (True, take n bs) # utf8_chunks cs"
  using utf8_first_valid_append [OF assms] utf8_first_le [OF assms] utf8_first_pos [OF assms(1)] assms(2)
  by (subst utf8_chunks.simps) auto

lemma from_utf8_ok_replacement: "from_utf8_ok (REPLACEMENT @ cs) = from_utf8_ok cs"
proof -
  have "utf8_first (REPLACEMENT @ cs) = (True, 3)"
    by (simp add: utf8_first_def byte_at_def REPLACEMENT_def utf8_char_width_def second_ok_def
        continuation_def)
  then show ?thesis
    by (subst from_utf8_ok_def, subst utf8_chunks.simps) (simp add: REPLACEMENT_def from_utf8_ok_def)
qed

lemma from_utf8_lossy_ok: "from_utf8_ok (from_utf8_lossy bs)"
proof (induction bs rule: utf8_chunks.induct)
  case (1 bs)
  show ?case
  proof (cases "bs = []")
    case True
    then show ?thesis by (simp add: from_utf8_lossy_def from_utf8_ok_def utf8_chunks.simps)
  next
    case False
    obtain ok n where first: "utf8_first bs = (ok, n)" by fastforce
    with 1 False have rest: "from_utf8_ok (from_utf8_lossy (drop n bs))" by simp
    have "from_utf8_lossy bs = (if ok then take n bs else REPLACEMENT) @ from_utf8_lossy (drop n bs)"
      using False first by (simp add: from_utf8_lossy_def utf8_chunks.simps [of bs])
    then show ?thesis
    proof (cases ok)
      case True
      with rest first False \<open>from_utf8_lossy bs = _\<close> show ?thesis
        by (simp add: from_utf8_ok_def utf8_chunks_valid_append)
    next
      case False
      with rest \<open>from_utf8_lossy bs = _\<close> show ?thesis by (simp add: from_utf8_ok_replacement)
    qed
  qed
qed

end
