(* ===== verification/Probe_Adv.thy ===== *)
theory Probe_Adv
  imports Config World Utf8
begin

text \<open>
  How the hub recognises probes (\<open>src/ble.rs\<close>): the metadata in an advertisement
  (\<open>parse_probe_meta\<close>, \<open>parse_probe_meta_from_name\<close>, \<open>matching_marker\<close>) and the scan that collects one
  candidate per address (\<open>scan_probe_candidates\<close>, whose callback is \<open>scan_callback\<close>). Of a
  \<open>BLEAdvertisedDevice\<close> the code uses the address only, so a device is its address here.
  \<open>candidate_of\<close> over \<open>first_heard\<close> is the specification of the scan. Log output is left out.
\<close>

section \<open>Metadata of an advertisement\<close>

datatype probe_mode = Normal | Setup

instantiation probe_mode :: linorder
begin

definition less_eq_probe_mode :: "probe_mode \<Rightarrow> probe_mode \<Rightarrow> bool" where
  "less_eq_probe_mode a b \<longleftrightarrow> a = Normal \<or> b = Setup"

definition less_probe_mode :: "probe_mode \<Rightarrow> probe_mode \<Rightarrow> bool" where
  "less_probe_mode a b \<longleftrightarrow> a = Normal \<and> b = Setup"

instance
proof
  fix a b c :: probe_mode
  show "(a < b) = (a \<le> b \<and> \<not> b \<le> a)"
    by (cases a; cases b) (simp_all add: less_eq_probe_mode_def less_probe_mode_def)
  show "a \<le> a" by (cases a) (simp_all add: less_eq_probe_mode_def)
  show "a \<le> b \<Longrightarrow> b \<le> c \<Longrightarrow> a \<le> c" by (cases b) (simp_all add: less_eq_probe_mode_def)
  show "a \<le> b \<Longrightarrow> b \<le> a \<Longrightarrow> a = b" by (cases a; cases b) (simp_all add: less_eq_probe_mode_def)
  show "a \<le> b \<or> b \<le> a" by (cases a) (simp_all add: less_eq_probe_mode_def)
qed

end

record probe_meta =
  version_major :: u8
  version_minor :: u8
  meta_name :: string
  meta_mode :: probe_mode

record probe_candidate =
  cand_device :: ble_addr
  cand_meta :: probe_meta

definition starts_with :: "bytes \<Rightarrow> bytes \<Rightarrow> bool" where
  "starts_with xs m \<longleftrightarrow> take (length m) xs = m"

definition matching_marker :: "bytes \<Rightarrow> (nat \<times> probe_mode) option" where
  "matching_marker payload =
     (if starts_with payload MAGIC_MARKER \<and> length payload \<ge> length MAGIC_MARKER + 2
      then Some (length MAGIC_MARKER, Normal)
      else if starts_with payload SETUP_MARKER \<and> length payload \<ge> length SETUP_MARKER + 2
      then Some (length SETUP_MARKER, Setup)
      else if starts_with payload LEGACY_TEST_MARKER
        \<and> length payload \<ge> length LEGACY_TEST_MARKER + 2
      then Some (length LEGACY_TEST_MARKER, Normal)
      else None)"

definition default_probe_name_for_mode :: "probe_mode \<Rightarrow> string" where
  "default_probe_name_for_mode mode =
     (case mode of Normal \<Rightarrow> ''HH-PROBE-A'' | Setup \<Rightarrow> SETUP_PROBE_NAME)"

definition parse_probe_meta :: "u16 \<Rightarrow> bytes \<Rightarrow> string option \<Rightarrow> probe_meta option rs" where
  "parse_probe_meta company_id payload advertised_name =
     (if company_id \<noteq> COMPANY_ID then Val None
      else case matching_marker payload of
        None \<Rightarrow> Val None
      | Some (marker_len, marker_mode) \<Rightarrow>
          let base = marker_len in
          if length payload = base + 2 then
            rs_bind (index payload base) (\<lambda>version_major.
            rs_bind (index payload (base + 1)) (\<lambda>version_minor.
            let name = (case advertised_name of
                  Some name \<Rightarrow> name | None \<Rightarrow> default_probe_name_for_mode marker_mode);
                mode = (if name = SETUP_PROBE_NAME then Setup else marker_mode)
            in Val (Some \<lparr>version_major = version_major, version_minor = version_minor,
                     meta_name = name, meta_mode = mode\<rparr>)))
          else
            rs_bind (index payload base) (\<lambda>version_major.
            rs_bind (index payload (base + 1)) (\<lambda>version_minor.
            rs_bind (index payload (base + 2)) (\<lambda>name_len.
            let name_start = base + 3; name_end = name_start + unat name_len in
            if length payload < name_end then Val None
            else rs_bind (slice payload name_start name_end) (\<lambda>name_bytes.
              let name = str_of_bytes (from_utf8_lossy name_bytes);
                  mode = (if marker_mode = Setup \<or> name = SETUP_PROBE_NAME then Setup else Normal)
              in Val (Some \<lparr>version_major = version_major, version_minor = version_minor,
                       meta_name = name, meta_mode = mode\<rparr>))))))"

definition parse_probe_meta_from_name :: "string option \<Rightarrow> probe_meta option" where
  "parse_probe_meta_from_name advertised_name =
     (case advertised_name of
        None \<Rightarrow> None
      | Some name \<Rightarrow>
          if name = SETUP_PROBE_NAME then
            Some \<lparr>version_major = 0, version_minor = 0, meta_name = name, meta_mode = Setup\<rparr>
          else if name = ''HH-PROBE-A'' then
            Some \<lparr>version_major = 0, version_minor = 0, meta_name = name, meta_mode = Normal\<rparr>
          else None)"

section \<open>The scan\<close>

text \<open>
  What the scan callback takes from one advertisement, and what it does to the candidates seen so
  far. \<open>parse_probe_meta\<close> never panics (\<open>parse_probe_meta_total\<close>).
\<close>

definition advertised_meta :: "advertisement \<Rightarrow> probe_meta option" where
  "advertised_meta adv =
     (case (case adv_mfg adv of
        None \<Rightarrow> None
      | Some mfg \<Rightarrow> rs_val (parse_probe_meta (company_identifier mfg) (mfg_payload mfg) (adv_name adv)))
      of Some meta \<Rightarrow> Some meta
       | None \<Rightarrow> parse_probe_meta_from_name (adv_name adv))"

fun upgrade :: "ble_addr \<Rightarrow> probe_meta \<Rightarrow> probe_candidate list \<Rightarrow> probe_candidate list" where
  "upgrade addr meta [] = []"
| "upgrade addr meta (existing # seen) =
     (if cand_device existing = addr
      then (if meta_mode meta = Setup \<and> meta_mode (cand_meta existing) \<noteq> Setup
            then existing\<lparr>cand_meta := meta\<rparr> else existing) # seen
      else existing # upgrade addr meta seen)"

definition scan_callback :: "advertisement \<Rightarrow> probe_candidate list \<Rightarrow> probe_candidate list" where
  "scan_callback adv seen =
     (case advertised_meta adv of
        None \<Rightarrow> seen
      | Some meta \<Rightarrow>
          if \<exists>candidate\<in>set seen. cand_device candidate = adv_addr adv
          then upgrade (adv_addr adv) meta seen
          else seen @ [\<lparr>cand_device = adv_addr adv, cand_meta = meta\<rparr>])"

definition scan_probe_candidates :: "probe_candidate list res io" where
  "scan_probe_candidates = do {
     (advs, result) \<leftarrow> ask scan_at (\<lambda>(advs, result). ScanRun advs result);
     case result of
       Inl e \<Rightarrow> State_Monad.return (Inl e)
     | Inr _ \<Rightarrow> State_Monad.return (Inr (fold scan_callback advs []))
   }"

section \<open>The parser\<close>

lemma matching_marker_length:
  "matching_marker payload = Some (n, m) \<Longrightarrow> n + 2 \<le> length payload"
  by (auto simp: matching_marker_def split: if_splits)

text \<open>The meaning of a payload, with the bytes taken apart.\<close>

lemma parse_probe_meta_eq:
  assumes "matching_marker payload = Some (n, m)"
  shows "parse_probe_meta COMPANY_ID payload name = Val (
     if length payload = n + 2 then
       (let name = (case name of Some name \<Rightarrow> name | None \<Rightarrow> default_probe_name_for_mode m)
        in Some \<lparr>version_major = payload ! n, version_minor = payload ! Suc n, meta_name = name,
             meta_mode = (if name = SETUP_PROBE_NAME then Setup else m)\<rparr>)
     else if length payload < n + 3 + unat (payload ! (n + 2)) then None
     else (let name = str_of_bytes (from_utf8_lossy (take (unat (payload ! (n + 2))) (drop (n + 3) payload)))
        in Some \<lparr>version_major = payload ! n, version_minor = payload ! Suc n, meta_name = name,
             meta_mode = (if m = Setup \<or> name = SETUP_PROBE_NAME then Setup else Normal)\<rparr>))"
  using assms matching_marker_length [OF assms]
  by (simp add: parse_probe_meta_def Let_def)

lemma parse_probe_meta_total: "\<exists>r. parse_probe_meta company payload name = Val r"
proof (cases "company = COMPANY_ID")
  case True
  show ?thesis
  proof (cases "matching_marker payload")
    case None
    then show ?thesis by (simp add: parse_probe_meta_def)
  next
    case (Some marker)
    with True parse_probe_meta_eq [of payload] show ?thesis by (cases marker) fastforce
  qed
qed (simp add: parse_probe_meta_def)

text \<open>The probe's side of the long form, and the metadata it can stand for.\<close>

definition encode_probe_adv :: "probe_meta \<Rightarrow> bytes" where
  "encode_probe_adv meta =
     (case meta_mode meta of Normal \<Rightarrow> MAGIC_MARKER | Setup \<Rightarrow> SETUP_MARKER) @
     [version_major meta, version_minor meta, word_of_nat (length (meta_name meta))] @
     bytes_of_str (meta_name meta)"

definition advertisable :: "probe_meta \<Rightarrow> bool" where
  "advertisable meta \<longleftrightarrow> length (meta_name meta) < 256 \<and> from_utf8_ok (bytes_of_str (meta_name meta)) \<and>
     (meta_mode meta = Normal \<longrightarrow> meta_name meta \<noteq> SETUP_PROBE_NAME)"

definition probe_meta_of :: "bytes \<Rightarrow> probe_meta option" where
  "probe_meta_of payload = rs_val (parse_probe_meta COMPANY_ID payload None)"

lemma markers_differ: "take 8 SETUP_MARKER \<noteq> MAGIC_MARKER"
  by (simp add: SETUP_MARKER_def MAGIC_MARKER_def bytes_of_str_Cons)

lemma matching_marker_encode:
  "matching_marker (encode_probe_adv meta) = Some (8, meta_mode meta)"
  using markers_differ
  by (auto simp: matching_marker_def encode_probe_adv_def starts_with_def split: probe_mode.splits)

lemma probe_adv_decodes:
  assumes "advertisable meta"
  shows "parse_probe_meta COMPANY_ID (encode_probe_adv meta) name = Val (Some meta)"
proof -
  let ?p = "encode_probe_adv meta"
  from assms have len: "unat (word_of_nat (length (meta_name meta)) :: u8) = length (meta_name meta)"
    by (simp add: advertisable_def unat_of_nat take_bit_eq_mod)
  obtain mk where p: "?p = mk @ [version_major meta, version_minor meta,
      word_of_nat (length (meta_name meta))] @ bytes_of_str (meta_name meta)" "length mk = 8"
    by (cases "meta_mode meta") (simp_all add: encode_probe_adv_def)
  have "length ?p = 11 + length (meta_name meta)" "?p ! 8 = version_major meta"
    "?p ! 9 = version_minor meta" "?p ! 10 = word_of_nat (length (meta_name meta))"
    "drop 11 ?p = bytes_of_str (meta_name meta)"
    using p(2) by (simp_all add: p(1) nth_append)
  with assms len show ?thesis
    by (subst parse_probe_meta_eq [OF matching_marker_encode])
      (cases "meta_mode meta"; simp add: advertisable_def from_utf8_lossy_valid)
qed

interpretation probe_adv: codec encode_probe_adv probe_meta_of advertisable
  by unfold_locales (simp add: probe_meta_of_def probe_adv_decodes)

section \<open>What a scan returns\<close>

text \<open>
  The metadata an address was advertised with, in the order heard, the one that counts (the first
  in setup mode, else the first), and the addresses in the order first heard.
\<close>

definition metas_of :: "ble_addr \<Rightarrow> advertisement list \<Rightarrow> probe_meta list" where
  "metas_of addr advs =
     List.map_filter (\<lambda>adv. if adv_addr adv = addr then advertised_meta adv else None) advs"

definition chosen_meta :: "probe_meta list \<Rightarrow> probe_meta" where
  "chosen_meta metas =
     (case find (\<lambda>m. meta_mode m = Setup) metas of Some m \<Rightarrow> m | None \<Rightarrow> hd metas)"

definition first_heard :: "advertisement list \<Rightarrow> ble_addr list" where
  "first_heard advs = rev (remdups (rev (List.map_filter (\<lambda>adv.
     case advertised_meta adv of None \<Rightarrow> None | Some _ \<Rightarrow> Some (adv_addr adv)) advs)))"

definition candidate_of :: "advertisement list \<Rightarrow> ble_addr \<Rightarrow> probe_candidate" where
  "candidate_of advs addr =
     \<lparr>cand_device = addr, cand_meta = chosen_meta (metas_of addr advs)\<rparr>"

lemma map_filter_append: "List.map_filter f (xs @ ys) = List.map_filter f xs @ List.map_filter f ys"
  by (simp add: List.map_filter_def)

lemma metas_of_snoc:
  "metas_of addr (advs @ [adv]) = metas_of addr advs @
     (case advertised_meta adv of Some m \<Rightarrow> if adv_addr adv = addr then [m] else [] | None \<Rightarrow> [])"
  by (simp add: metas_of_def map_filter_append map_filter_simps split: option.splits)

lemma first_heard_snoc:
  "first_heard (advs @ [adv]) =
     (if advertised_meta adv = None \<or> adv_addr adv \<in> set (first_heard advs) then first_heard advs
      else first_heard advs @ [adv_addr adv])"
  by (auto simp: first_heard_def map_filter_append map_filter_simps split: option.splits)

lemma distinct_first_heard: "distinct (first_heard advs)"
  by (simp add: first_heard_def)

lemma set_first_heard: "addr \<in> set (first_heard advs) \<longleftrightarrow> metas_of addr advs \<noteq> []"
  by (induction advs rule: rev_induct)
    (auto simp: first_heard_snoc metas_of_snoc split: option.splits, auto simp: first_heard_def metas_of_def map_filter_simps)

lemma find_append: "find P (xs @ ys) = (case find P xs of Some x \<Rightarrow> Some x | None \<Rightarrow> find P ys)"
  by (induction xs) auto

lemma chosen_meta_single: "chosen_meta [m] = m"
  by (simp add: chosen_meta_def)

lemma chosen_meta_snoc:
  assumes "metas \<noteq> []"
  shows "chosen_meta (metas @ [m]) =
     (if meta_mode m = Setup \<and> meta_mode (chosen_meta metas) \<noteq> Setup then m else chosen_meta metas)"
proof (cases "find (\<lambda>m. meta_mode m = Setup) metas")
  case None
  with assms have "meta_mode (hd metas) \<noteq> Setup" by (auto simp: find_None_iff)
  with None assms show ?thesis by (simp add: chosen_meta_def find_append)
next
  case (Some x)
  then have "meta_mode x = Setup" by (auto simp: find_Some_iff)
  with Some show ?thesis by (simp add: chosen_meta_def find_append)
qed

lemma upgrade_map:
  assumes "distinct addrs" "a \<in> set addrs"
  shows "upgrade a m (map (\<lambda>x. \<lparr>cand_device = x, cand_meta = f x\<rparr>) addrs) =
     map (\<lambda>x. \<lparr>cand_device = x, cand_meta = (if x = a \<and> meta_mode m = Setup \<and> meta_mode (f x) \<noteq> Setup
       then m else f x)\<rparr>) addrs"
  using assms by (induction addrs) auto

lemma scan_fold: "fold scan_callback advs [] = map (candidate_of advs) (first_heard advs)"
proof (induction advs rule: rev_induct)
  case Nil
  then show ?case by (simp add: first_heard_def map_filter_simps)
next
  case (snoc adv advs)
  let ?a = "adv_addr adv"
  have last: "fold scan_callback (advs @ [adv]) [] =
      scan_callback adv (map (candidate_of advs) (first_heard advs))"
    by (simp add: snoc)
  show ?case
  proof (cases "advertised_meta adv")
    case None
    then show ?thesis
      unfolding last by (simp add: scan_callback_def first_heard_snoc candidate_of_def metas_of_snoc)
  next
    case (Some m)
    show ?thesis
    proof (cases "?a \<in> set (first_heard advs)")
      case True
      then have "metas_of ?a advs \<noteq> []" by (simp add: set_first_heard)
      from chosen_meta_snoc [OF this, of m] True Some show ?thesis
        using upgrade_map [OF distinct_first_heard True, of m "\<lambda>a. chosen_meta (metas_of a advs)"]
        unfolding last by (auto simp: scan_callback_def first_heard_snoc candidate_of_def [abs_def] metas_of_snoc)
    next
      case False
      then have "metas_of ?a advs = []" by (simp add: set_first_heard)
      with False Some show ?thesis
        unfolding last by (auto simp: scan_callback_def first_heard_snoc candidate_of_def metas_of_snoc
            chosen_meta_single)
    qed
  qed
qed

lemma meta_mode_chosen:
  "metas \<noteq> [] \<Longrightarrow> meta_mode (chosen_meta metas) = Max (meta_mode ` set metas)"
proof (induction metas rule: rev_induct)
  case (snoc m metas)
  show ?case
  proof (cases "metas = []")
    case True
    then show ?thesis by (simp add: chosen_meta_def)
  next
    case False
    with snoc have "Max (meta_mode ` set (metas @ [m])) = max (meta_mode m) (meta_mode (chosen_meta metas))"
      by simp
    with False show ?thesis
      by (cases "meta_mode m"; cases "meta_mode (chosen_meta metas)")
        (simp_all add: chosen_meta_snoc max_def less_eq_probe_mode_def)
  qed
qed simp

lemma traced_scan_probe_candidates:
  assumes "\<And>advs e. Q [ScanRun advs (Inl e)] (Inl e)"
    and "\<And>advs. Q [ScanRun advs (Inr ())] (Inr (map (candidate_of advs) (first_heard advs)))"
  shows "traced E scan_probe_candidates Q"
  unfolding scan_probe_candidates_def scan_fold
  by (intro traced_intro) (auto intro: assms)

lemma modes_of_candidates:
  "map (\<lambda>c. meta_mode (cand_meta c)) (map (candidate_of advs) (first_heard advs)) =
   map (\<lambda>a. Max (meta_mode ` set (metas_of a advs))) (first_heard advs)"
  by (auto simp: candidate_of_def set_first_heard meta_mode_chosen)


text \<open>
  C25: the two sides of an advertisement agree: what a probe advertises with marker, version and
  name, for any name that is valid UTF-8 and shorter than 256 bytes, is what the hub decodes,
  whatever name the advertisement itself carries.
\<close>

theorem probe_adv_roundtrip:
  assumes "advertisable meta"
  shows "parse_probe_meta COMPANY_ID (encode_probe_adv meta) name = Val (Some meta)"
  using assms by (rule probe_adv_decodes)

theorem probe_adv_roundtrip_witness:
  "parse_probe_meta 0x1234 (bytes_of_str ''HH-PROBE'' @ [1, 2, 3] @ bytes_of_str ''abc'') None =
     Val (Some \<lparr>version_major = 1, version_minor = 2, meta_name = ''abc'', meta_mode = Normal\<rparr>)"
proof -
  let ?m = "\<lparr>version_major = 1, version_minor = 2, meta_name = ''abc'', meta_mode = Normal\<rparr>"
  have "advertisable ?m" by code_simp
  from probe_adv_roundtrip [OF this, of None] show ?thesis
    by (simp add: encode_probe_adv_def MAGIC_MARKER_def COMPANY_ID_def)
qed

text \<open>
  C21: a scan returns one candidate for every address from which at least one advertisement of a
  probe was heard, in the order first heard, with the metadata of its first advertisement in setup
  mode, else of its first; so a candidate is in setup mode as soon as one of its advertisements is.
\<close>

theorem scan_one_candidate_per_probe:
  "traced E scan_probe_candidates (\<lambda>tr r. \<exists>advs result. tr = [ScanRun advs result] \<and>
     (case result of
        Inl e \<Rightarrow> r = Inl e
      | Inr _ \<Rightarrow> \<exists>candidates. r = Inr candidates \<and>
          candidates = map (candidate_of advs) (first_heard advs) \<and>
          map cand_device candidates = first_heard advs \<and> distinct (first_heard advs) \<and>
          set (first_heard advs) = {addr. metas_of addr advs \<noteq> []} \<and>
          map (\<lambda>c. meta_mode (cand_meta c)) candidates =
            map (\<lambda>a. Max (meta_mode ` set (metas_of a advs))) (first_heard advs)))"
  unfolding modes_of_candidates [symmetric]
  by (rule traced_scan_probe_candidates)
    (auto simp: distinct_first_heard set_first_heard candidate_of_def o_def)

end
