(* ===== verification/Sensor_Decode.thy ===== *)
theory Sensor_Decode
  imports Utf8 World
begin

text \<open>
  The characteristic values of a probe as numbers (\<open>parse_centi_celsius_i16\<close>, \<open>parse_pressure_pa\<close>,
  \<open>parse_centi_percent_u16\<close>, \<open>parse_probe_uuid_ascii\<close> of \<open>src/ble.rs\<close>). An \<open>f64\<close> is its exact
  rational value; \<open>f64_div\<close> is the division of two integers that are exact as doubles, with the
  rounding of IEEE 754 (to nearest, ties to even): \<open>f64_div_closest\<close> shows that the result is the closest
  double to the quotient, \<open>f64_div_error\<close> bounds the error. The bytes are indexed
  after the length check that guards them in the source.
\<close>

section \<open>Double-precision division\<close>

text \<open>
  \<open>n as f64 / d as f64\<close> for integers that are exact as doubles: the quotient rounded to 53
  significant bits, ties to even. \<open>shift\<close> is the scaling after which the quotient lies between
  \<open>2^52\<close> and \<open>2^53\<close>. Magnitudes here are far from the exponent range of a double.
\<close>

definition round_half_even :: "rat \<Rightarrow> int" where
  "round_half_even q = (let f = \<lfloor>q\<rfloor>; r = q - of_int f in
     if r < 1 / 2 then f else if 1 / 2 < r then f + 1 else if even f then f else f + 1)"

definition f64_shift :: "nat \<Rightarrow> nat \<Rightarrow> nat" where
  "f64_shift n d = (let s = nat (53 - (bitlen (int n) - bitlen (int d))) in
     if 2 ^ 53 * d \<le> n * 2 ^ s then s - 1 else s)"

definition f64_div_nat :: "nat \<Rightarrow> nat \<Rightarrow> f64" where
  "f64_div_nat n d = (if n = 0 then 0 else
     of_int (round_half_even (of_nat (n * 2 ^ f64_shift n d) / of_nat d)) / 2 ^ f64_shift n d)"

definition f64_div :: "int \<Rightarrow> nat \<Rightarrow> f64" where
  "f64_div n d = (if n < 0 then - f64_div_nat (nat (- n)) d else f64_div_nat (nat n) d)"

lemma round_half_even_error: "\<bar>of_int (round_half_even q) - q\<bar> \<le> 1 / 2"
proof -
  have "of_int \<lfloor>q\<rfloor> \<le> q" "q < of_int \<lfloor>q\<rfloor> + 1" by linarith+
  then show ?thesis by (simp add: round_half_even_def Let_def)
qed

lemma round_half_even_le: "q \<le> of_int k \<Longrightarrow> round_half_even q \<le> k"
  by (auto simp: round_half_even_def Let_def floor_less_iff le_floor_iff; linarith)

lemma round_half_even_ge: "of_int k \<le> q \<Longrightarrow> k \<le> round_half_even q"
  by (auto simp: round_half_even_def Let_def le_floor_iff; linarith)

lemma f64_div_nat_error:
  assumes "0 < d"
  shows "\<bar>f64_div_nat n d - of_nat n / of_nat d\<bar> \<le> 1 / 2 ^ Suc (f64_shift n d)"
proof (cases "n = 0")
  case False
  let ?s = "f64_shift n d"
  let ?q = "of_nat (n * 2 ^ ?s) / of_nat d :: rat"
  have "f64_div_nat n d - of_nat n / of_nat d = (of_int (round_half_even ?q) - ?q) / 2 ^ ?s"
    using False by (simp add: f64_div_nat_def diff_divide_distrib)
  then have "\<bar>f64_div_nat n d - of_nat n / of_nat d\<bar> = \<bar>of_int (round_half_even ?q) - ?q\<bar> / 2 ^ ?s"
    by (simp add: abs_divide)
  also have "\<dots> \<le> (1 / 2) / 2 ^ ?s"
    by (rule divide_right_mono [OF round_half_even_error]) simp
  finally show ?thesis by simp
qed (simp add: f64_div_nat_def)

text \<open>The bound for the raw values of the sensors, at most 16 bits.\<close>

lemma f64_shift_ge:
  assumes "n < 65536"
  shows "43 \<le> f64_shift n 100"
proof -
  have "bitlen (int n) \<le> 16" using assms by (intro bitlen_le_iff_power [THEN iffD2]) auto
  moreover have "bitlen (int 100) = 7" by code_simp
  ultimately have "44 \<le> nat (53 - (bitlen (int n) - bitlen (int 100)))" by linarith
  then show ?thesis by (auto simp: f64_shift_def Let_def)
qed


text \<open>The scaled quotient has 53 bits before the point.\<close>

lemma f64_shift_range:
  assumes "0 < n" "n < 65536"
  shows "2 ^ 52 * 100 \<le> n * 2 ^ f64_shift n 100 \<and> n * 2 ^ f64_shift n 100 < 2 ^ 53 * 100"
proof -
  let ?b = "nat (bitlen (int n))"
  have b100: "bitlen (int 100) = 7" by code_simp
  have "bitlen (int n) \<le> 16" using assms by (intro bitlen_le_iff_power [THEN iffD2]) auto
  moreover have "1 \<le> bitlen (int n)" using bitlen_eq_zero_iff [of "int n"] bitlen_nonneg [of "int n"] assms
    by linarith
  ultimately have b: "bitlen (int n) = int ?b" "1 \<le> ?b" "?b \<le> 16" by linarith+
  have "nat (bitlen (int n) - 1) = ?b - 1" using b(2) by simp
  with bitlen_bounds [of "int n"] assms(1)
  have "int (2 ^ (?b - 1)) \<le> int n" "int n < int (2 ^ ?b)" by simp_all
  then have "2 ^ (?b - 1) \<le> n" "n < 2 ^ ?b" by (simp_all only: of_nat_le_iff of_nat_less_iff)
  moreover define s where "s = 60 - ?b"
  have s: "nat (53 - (bitlen (int n) - bitlen (int 100))) = s" "44 \<le> s"
    using b b100 by (simp_all add: s_def)
  ultimately have "2 ^ (?b - 1) * 2 ^ s \<le> n * 2 ^ s" "n * 2 ^ s < 2 ^ ?b * 2 ^ s" by simp_all
  moreover have "2 ^ (?b - 1) * 2 ^ s = (2 ^ 59 :: nat)" "2 ^ ?b * 2 ^ s = (2 ^ 60 :: nat)"
    using b by (simp_all add: s_def flip: power_add)
  ultimately have range: "2 ^ 59 \<le> n * 2 ^ s" "n * 2 ^ s < 2 ^ 60" by linarith+
  obtain s' where s': "s = Suc s'" using s(2) by (cases s) auto
  with range show ?thesis unfolding f64_shift_def s(1) Let_def by auto
qed


lemma f64_div_error:
  assumes "\<bar>n\<bar> < 65536"
  shows "\<bar>f64_div n 100 - of_int n / 100\<bar> \<le> 1 / 2 ^ 44"
proof -
  have nat: "\<bar>f64_div_nat m 100 - of_nat m / 100\<bar> \<le> 1 / 2 ^ 44" if "m < 65536" for m
  proof -
    have "\<bar>f64_div_nat m 100 - of_nat m / of_nat 100\<bar> \<le> 1 / 2 ^ Suc (f64_shift m 100)"
      by (rule f64_div_nat_error) simp
    also have "\<dots> \<le> 1 / 2 ^ 44"
      using f64_shift_ge [OF that] by (intro divide_left_mono power_increasing) auto
    finally show ?thesis by simp
  qed
  show ?thesis
  proof (cases "n < 0")
    case True
    then have "of_nat (nat (- n)) = (- of_int n :: rat)" by simp
    with nat [of "nat (- n)"] assms True show ?thesis
      by (simp add: f64_div_def abs_minus_commute add.commute)
  next
    case False
    then have "of_nat (nat n) = (of_int n :: rat)" by simp
    with nat [of "nat n"] assms False show ?thesis by (simp add: f64_div_def)
  qed
qed

lemma f64_div_recover:
  assumes "\<bar>n\<bar> < 65536"
  shows "round (100 * f64_div n 100) = n"
proof (rule round_unique')
  have "\<bar>f64_div n 100 - of_int n / 100\<bar> * 100 \<le> (1 / 2 ^ 44) * 100"
    by (rule mult_right_mono [OF f64_div_error [OF assms]]) simp
  also have "\<dots> < (1 / 2 :: rat)" by simp
  finally show "\<bar>100 * f64_div n 100 - of_int n\<bar> < 1 / 2"
    by (simp add: abs_if field_simps split: if_splits)
qed

lemma f64_div_range:
  assumes "0 \<le> n" "n \<le> 100 * k"
  shows "0 \<le> f64_div n 100 \<and> f64_div n 100 \<le> of_int k"
proof -
  let ?s = "f64_shift (nat n) 100"
  let ?q = "of_nat (nat n * 2 ^ ?s) / of_nat 100 :: rat"
  have "?q = of_int n / 100 * 2 ^ ?s" using assms(1) by simp
  moreover have "of_int n \<le> (of_int (100 * k) :: rat)" using assms(2) by (simp only: of_int_le_iff)
  then have "of_int n / 100 \<le> (of_int k :: rat)" by simp
  ultimately have "?q \<le> of_int (k * 2 ^ ?s)" by (simp add: mult_right_mono)
  then have "round_half_even ?q \<le> k * 2 ^ ?s" by (rule round_half_even_le)
  then have "of_int (round_half_even ?q) \<le> (of_int (k * 2 ^ ?s) :: rat)" by (simp only: of_int_le_iff)
  moreover have "0 \<le> round_half_even ?q" by (rule round_half_even_ge) simp
  moreover have "0 \<le> k" using assms by linarith
  ultimately show ?thesis
    using assms(1) by (simp add: f64_div_def f64_div_nat_def divide_le_eq)
qed

section \<open>The closest double\<close>

text \<open>
  The finite doubles: 53 significant bits, with the exponents of IEEE 754. The closest one to a number is
  meant here without ties.
\<close>

definition doubles :: "rat set" where
  "doubles = {v. \<exists>m e. \<bar>m\<bar> < 2 ^ 53 \<and>
     (v = of_int m * 2 ^ e \<and> e \<le> (971 :: nat) \<or> v = of_int m / 2 ^ e \<and> e \<le> 1074)}"

definition closest_double :: "f64 \<Rightarrow> rat \<Rightarrow> bool" where
  "closest_double v x \<longleftrightarrow> v \<in> doubles \<and> (\<forall>w \<in> doubles. w = v \<or> \<bar>v - x\<bar> < \<bar>w - x\<bar>)"

lemma double_fraction: "\<bar>m\<bar> < 2 ^ 53 \<Longrightarrow> e \<le> 1074 \<Longrightarrow> of_int m / 2 ^ e \<in> doubles"
  unfolding doubles_def by blast

lemma doubles_uminus: "v \<in> doubles \<Longrightarrow> - v \<in> doubles"
proof -
  assume "v \<in> doubles"
  then obtain m e where "\<bar>m\<bar> < 2 ^ 53" "v = of_int m * 2 ^ e \<and> e \<le> (971 :: nat) \<or> v = of_int m / 2 ^ e \<and> e \<le> 1074"
    by (auto simp: doubles_def)
  then show ?thesis unfolding doubles_def by (intro CollectI exI [of _ "- m"] exI [of _ e]) auto
qed

lemma closest_double_uminus: "closest_double v x \<Longrightarrow> closest_double (- v) (- x)"
proof -
  assume c: "closest_double v x"
  have "w = - v \<or> \<bar>- v - - x\<bar> < \<bar>w - - x\<bar>" if "w \<in> doubles" for w
  proof -
    from c doubles_uminus [OF that] have "- w = v \<or> \<bar>v - x\<bar> < \<bar>- w - x\<bar>" unfolding closest_double_def by blast
    moreover have "\<bar>- w - x\<bar> = \<bar>w - - x\<bar>" "\<bar>- v - - x\<bar> = \<bar>v - x\<bar>" by linarith+
    ultimately show ?thesis by auto
  qed
  with c doubles_uminus show ?thesis unfolding closest_double_def by blast
qed

lemma scaled_double:
  assumes "w \<in> doubles"
  shows "(\<exists>k. w * 2 ^ s = of_int k) \<or> \<bar>w * 2 ^ s\<bar> < 2 ^ 52"
proof -
  from assms obtain m e where m: "\<bar>m\<bar> < 2 ^ 53" and "w = of_int m * 2 ^ e \<or> w = of_int m / 2 ^ e"
    by (auto simp: doubles_def)
  then consider "w = of_int m * 2 ^ e" | "w = of_int m / 2 ^ e" "e \<le> s" | "w = of_int m / 2 ^ e" "s < e" by linarith
  then show ?thesis
  proof cases
    case 1
    then have "w * 2 ^ s = of_int (m * 2 ^ e * 2 ^ s)" by simp
    then show ?thesis by blast
  next
    case 2
    obtain j where "s = e + j" using 2(2) le_Suc_ex by blast
    then have "w * 2 ^ s = of_int (m * 2 ^ j)" using 2(1) by (simp add: power_add)
    then show ?thesis by blast
  next
    case 3
    define i where "i = e - s - 1"
    have "e = Suc (i + s)" using 3(2) by (simp add: i_def)
    then have "w * 2 ^ s = of_int m / (2 * 2 ^ i)" using 3(1) by (simp add: power_add)
    then have "\<bar>w * 2 ^ s\<bar> * (2 * 2 ^ i) = of_int \<bar>m\<bar>" by (simp add: abs_mult)
    moreover have "of_int \<bar>m\<bar> < (of_int (2 ^ 53) :: rat)" using m by (simp only: of_int_less_iff)
    moreover have "\<bar>w * 2 ^ s\<bar> * 2 \<le> \<bar>w * 2 ^ s\<bar> * (2 * 2 ^ i)" by (intro mult_left_mono) simp_all
    ultimately have "\<bar>w * 2 ^ s\<bar> * 2 < 2 ^ 53" by simp
    then show ?thesis by simp
  qed
qed

lemma round_closest:
  assumes "\<bar>of_int M - q\<bar> < 1 / 2" "k \<noteq> M"
  shows "\<bar>of_int M - q\<bar> < \<bar>of_int k - (q :: rat)\<bar>"
proof -
  have "1 \<le> \<bar>k - M\<bar>" using assms(2) by linarith
  then have "of_int 1 \<le> (of_int \<bar>k - M\<bar> :: rat)" by (simp only: of_int_le_iff)
  then have "1 \<le> \<bar>of_int k - of_int M :: rat\<bar>" by simp
  with assms(1) show ?thesis by linarith
qed

lemma no_tie:
  assumes "2 \<le> s"
  shows "\<bar>of_int (round_half_even (of_nat (n * 2 ^ s) / 100)) - of_nat (n * 2 ^ s) / 100\<bar> < (1 / 2 :: rat)"
proof -
  let ?q = "of_nat (n * 2 ^ s) / 100 :: rat"
  have "?q - of_int \<lfloor>?q\<rfloor> \<noteq> 1 / 2"
  proof
    assume "?q - of_int \<lfloor>?q\<rfloor> = 1 / 2"
    then have "of_nat (n * 2 ^ s) * 2 = (of_int (200 * \<lfloor>?q\<rfloor> + 100) :: rat)" by (simp add: field_simps)
    then have "of_int (int (n * 2 ^ s) * 2) = (of_int (200 * \<lfloor>?q\<rfloor> + 100) :: rat)" by simp
    then have eq: "int (n * 2 ^ s) * 2 = 200 * \<lfloor>?q\<rfloor> + 100" by (simp only: of_int_eq_iff)
    obtain t where "s = t + 2" using assms by (metis add.commute le_Suc_ex)
    then have "int (n * 2 ^ s) * 2 = 8 * (int n * 2 ^ t)" by (simp add: power_add)
    moreover have "8 * a \<noteq> 200 * b + 100" for a b :: int by presburger
    ultimately show False using eq by metis
  qed
  moreover have "of_int \<lfloor>?q\<rfloor> \<le> ?q" "?q < of_int \<lfloor>?q\<rfloor> + 1" by linarith+
  ultimately show ?thesis unfolding round_half_even_def Let_def by (auto simp: abs_if)
qed

lemma f64_div_nat_closest:
  assumes "0 < n" "n < 65536"
  shows "closest_double (f64_div_nat n 100) (of_nat n / 100)"
proof -
  define s where "s = f64_shift n 100"
  define q where "q = (of_nat (n * 2 ^ s) / 100 :: rat)"
  define M where "M = round_half_even q"
  have s: "43 \<le> s" unfolding s_def by (rule f64_shift_ge [OF assms(2)])
  have "0 \<le> bitlen (int n)" by (rule bitlen_nonneg)
  moreover have "bitlen (int 100) = 7" by code_simp
  ultimately have "nat (53 - (bitlen (int n) - bitlen (int 100))) \<le> 60" by simp
  then have s': "s \<le> 60" unfolding s_def f64_shift_def Let_def by (auto split: if_splits)
  from f64_shift_range [OF assms] have "2 ^ 52 * 100 \<le> n * 2 ^ s" "n * 2 ^ s < 2 ^ 53 * 100" by (simp_all add: s_def)
  then have "of_nat (2 ^ 52 * 100) \<le> (of_nat (n * 2 ^ s) :: rat)" "(of_nat (n * 2 ^ s) :: rat) < of_nat (2 ^ 53 * 100)"
    by (simp_all only: of_nat_le_iff of_nat_less_iff)
  then have low: "of_int (2 ^ 52) \<le> q" and high: "q \<le> of_int (2 ^ 53)" by (simp_all add: q_def)
  have M: "2 ^ 52 \<le> M" "M \<le> 2 ^ 53"
    unfolding M_def by (rule round_half_even_ge [OF low], rule round_half_even_le [OF high])
  have near: "\<bar>of_int M - q\<bar> < 1 / 2"
    unfolding M_def q_def by (rule no_tie) (use s in simp)
  have v: "f64_div_nat n 100 = of_int M / 2 ^ s"
    using assms(1) by (simp add: f64_div_nat_def M_def q_def s_def)
  have x: "of_nat n / 100 = q / 2 ^ s" by (simp add: q_def)
  have "of_int M / 2 ^ s \<in> doubles"
  proof (cases "M = 2 ^ 53")
    case False
    with M s' show ?thesis by (intro double_fraction) simp_all
  next
    case True
    obtain i where i: "s = Suc i" using s by (cases s) auto
    have same: "of_int M / 2 ^ s = (of_int (2 ^ 52) / 2 ^ i :: rat)" by (simp add: True i)
    show ?thesis
      unfolding same by (rule double_fraction) (use i s' in simp_all)
  qed
  moreover have "w = of_int M / 2 ^ s \<or> \<bar>of_int M / 2 ^ s - q / 2 ^ s\<bar> < \<bar>w - q / 2 ^ s\<bar>" if w: "w \<in> doubles" for w
  proof -
    have "w * 2 ^ s = of_int M \<or> \<bar>of_int M - q\<bar> < \<bar>w * 2 ^ s - q\<bar>"
    proof (cases "\<exists>k. w * 2 ^ s = of_int k")
      case True
      then obtain k where "w * 2 ^ s = of_int k" ..
      with round_closest [OF near, of k] show ?thesis by (cases "k = M") auto
    next
      case False
      with scaled_double [OF w, of s] have "\<bar>w * 2 ^ s\<bar> < of_int (2 ^ 52)" by auto
      moreover have "\<bar>of_int M - q\<bar> \<le> \<bar>of_int (2 ^ 52) - q\<bar>"
        using round_closest [OF near, of "2 ^ 52"] by (cases "M = 2 ^ 52") auto
      ultimately show ?thesis using low by linarith
    qed
    moreover have "of_int M / 2 ^ s - q / 2 ^ s = (of_int M - q) / 2 ^ s" "w - q / 2 ^ s = (w * 2 ^ s - q) / 2 ^ s"
      by (simp_all add: diff_divide_distrib)
    ultimately show ?thesis by (auto simp: abs_divide divide_strict_right_mono)
  qed
  ultimately show ?thesis unfolding v x closest_double_def by blast
qed

lemma f64_div_closest:
  assumes "\<bar>n\<bar> < 65536"
  shows "closest_double (f64_div n 100) (of_int n / 100)"
proof -
  consider "n = 0" | "0 < n" | "n < 0" by linarith
  then show ?thesis
  proof cases
    case 1
    have "(0 :: rat) \<in> doubles" unfolding doubles_def by (intro CollectI exI [of _ 0] exI [of _ 0]) simp
    with 1 show ?thesis by (auto simp: closest_double_def f64_div_def f64_div_nat_def)
  next
    case 2
    then have "of_nat (nat n) = (of_int n :: rat)" by simp
    with f64_div_nat_closest [of "nat n"] 2 assms show ?thesis by (simp add: f64_div_def)
  next
    case 3
    then have "- of_nat (nat (- n)) = (of_int n :: rat)" by simp
    with closest_double_uminus [OF f64_div_nat_closest [of "nat (- n)"]] 3 assms show ?thesis
      by (simp add: f64_div_def)
  qed
qed

section \<open>Big-endian words\<close>

definition u16_from_be_bytes :: "u8 \<Rightarrow> u8 \<Rightarrow> u16" where
  "u16_from_be_bytes a b = push_bit 8 (ucast a) OR ucast b"

definition i16_from_be_bytes :: "u8 \<Rightarrow> u8 \<Rightarrow> i16" where
  "i16_from_be_bytes a b = push_bit 8 (ucast a) OR ucast b"

definition u32_from_be_bytes :: "u8 \<Rightarrow> u8 \<Rightarrow> u8 \<Rightarrow> u8 \<Rightarrow> u32" where
  "u32_from_be_bytes a b c d =
     push_bit 24 (ucast a) OR push_bit 16 (ucast b) OR push_bit 8 (ucast c) OR ucast d"

text \<open>The probe's side.\<close>

definition u16_to_be_bytes :: "u16 \<Rightarrow> bytes" where
  "u16_to_be_bytes x = [ucast (drop_bit 8 x), ucast x]"

lemma join_u16_bytes: "push_bit 8 (ucast (ucast (drop_bit 8 x) :: u8)) OR ucast (ucast x :: u8) = (x :: u16)"
proof (rule bit_word_eqI)
  fix n assume "n < LENGTH(16)"
  then have n: "n < 16" by simp
  consider "n < 8" | "8 \<le> n" by linarith
  then show "bit (push_bit 8 (ucast (ucast (drop_bit 8 x) :: u8)) OR ucast (ucast x :: u8) :: u16) n = bit x n"
    using n
    by cases (simp_all add: bit_or_iff bit_push_bit_iff bit_unsigned_iff bit_drop_bit_eq del: push_bit_numeral, auto)
qed

lemma u16_from_to: "u16_from_be_bytes (ucast (drop_bit 8 x)) (ucast x) = x"
  by (simp only: u16_from_be_bytes_def join_u16_bytes)

lemma i16_from_to: "i16_from_be_bytes (ucast (drop_bit 8 x)) (ucast x) = x"
  by (simp only: i16_from_be_bytes_def join_u16_bytes)

section \<open>The characteristic values\<close>

definition parse_centi_celsius_i16 :: "bytes \<Rightarrow> string \<Rightarrow> f64 res" where
  "parse_centi_celsius_i16 raw label =
     (if length raw < 2 then Inl (PayloadTooShort label raw)
      else let value = i16_from_be_bytes (raw ! 0) (raw ! 1)
           in Inr (f64_div (sint value) 100))"

definition parse_pressure_pa :: "bytes \<Rightarrow> f64 res" where
  "parse_pressure_pa raw =
     (if length raw < 4 then Inl (PayloadTooShort ''air pressure'' raw)
      else let value = u32_from_be_bytes (raw ! 0) (raw ! 1) (raw ! 2) (raw ! 3)
           in Inr (of_int (uint value)))"

definition parse_centi_percent_u16 :: "bytes \<Rightarrow> string \<Rightarrow> f64 res" where
  "parse_centi_percent_u16 raw label =
     (if length raw < 2 then Inl (PayloadTooShort label raw)
      else let value = u16_from_be_bytes (raw ! 0) (raw ! 1) in
        if value = 65535 then Inl (HumiditySentinel raw)
        else if 10000 < value then Inl (HumidityOutOfRange raw value)
        else Inr (f64_div (uint value) 100))"

definition parse_probe_uuid_ascii :: "bytes \<Rightarrow> string option" where
  "parse_probe_uuid_ascii raw =
     (if length raw \<noteq> 36 then None
      else if \<not> from_utf8_ok raw then None
      else if length (str_of_bytes raw) \<noteq> 36 then None
      else Some (str_of_bytes raw))"

text \<open>
  C26: a temperature sent by a probe as a signed 16-bit number of hundredths arrives as the double closest to
  it, strictly closer than any other; it is within \<open>2^-44\<close> of the hundredths, so that the number
  sent can be recovered from it.
\<close>

theorem celsius_decodes:
  "\<exists>v. parse_centi_celsius_i16 (u16_to_be_bytes x @ rest) label = Inr v \<and>
     closest_double v (of_int (sint x) / 100) \<and> \<bar>v - of_int (sint x) / 100\<bar> \<le> 1 / 2 ^ 44 \<and> round (100 * v) = sint x"
proof -
  have "\<bar>sint x\<bar> < 65536" using sint_greater_eq [of x] sint_less [of x] by (simp add: abs_if)
  from f64_div_closest [OF this] f64_div_error [OF this] f64_div_recover [OF this] show ?thesis
    by (simp add: parse_centi_celsius_i16_def u16_to_be_bytes_def i16_from_to)
qed

lemma percent_decodes:
  "case parse_centi_percent_u16 raw label of
     Inl _ \<Rightarrow> length raw < 2 \<or> 10000 < uint (u16_from_be_bytes (raw ! 0) (raw ! 1))
   | Inr v \<Rightarrow> 2 \<le> length raw \<and> (\<exists>n. n = u16_from_be_bytes (raw ! 0) (raw ! 1) \<and> uint n \<le> 10000 \<and>
       0 \<le> v \<and> v \<le> 100 \<and> closest_double v (of_int (uint n) / 100) \<and>
       \<bar>v - of_int (uint n) / 100\<bar> \<le> 1 / 2 ^ 44 \<and> round (100 * v) = uint n)"
proof -
  define n where "n = u16_from_be_bytes (raw ! 0) (raw ! 1)"
  have eq: "u16_from_be_bytes (raw ! 0) (raw ! Suc 0) = n" by (simp add: n_def)
  have bound: "\<bar>uint n\<bar> < 65536" using unsigned_less [of n, where ?'a = int] by simp
  have "n = 65535 \<Longrightarrow> 10000 < uint n" by simp
  moreover have "10000 < n \<longleftrightarrow> 10000 < uint n" by (simp add: word_less_def)
  moreover have "0 \<le> f64_div (uint n) 100 \<and> f64_div (uint n) 100 \<le> 100" if "uint n \<le> 10000"
    using f64_div_range [of "uint n" 100] that by simp
  ultimately show ?thesis
    using f64_div_closest [OF bound] f64_div_error [OF bound] f64_div_recover [OF bound]
    by (auto simp: parse_centi_percent_u16_def Let_def eq)
qed

lemma percent_range: "parse_centi_percent_u16 raw label = Inr v \<Longrightarrow> 0 \<le> v \<and> v \<le> 100"
  using percent_decodes [of raw label] by simp

text \<open>
  C37: a humidity is accepted exactly when it has two bytes and stands for at most 100.00 percent; then
  the value lies between 0 and 100, is the double closest to the hundredths sent, strictly closer than any
  other, and the number sent can be recovered from it.
\<close>

theorem humidity_decodes:
  "case parse_centi_percent_u16 raw label of
     Inl _ \<Rightarrow> length raw < 2 \<or> 10000 < uint (u16_from_be_bytes (raw ! 0) (raw ! 1))
   | Inr v \<Rightarrow> 2 \<le> length raw \<and> (\<exists>n. n = u16_from_be_bytes (raw ! 0) (raw ! 1) \<and> uint n \<le> 10000 \<and>
       0 \<le> v \<and> v \<le> 100 \<and> closest_double v (of_int (uint n) / 100) \<and>
       \<bar>v - of_int (uint n) / 100\<bar> \<le> 1 / 2 ^ 44 \<and> round (100 * v) = uint n)"
  by (rule percent_decodes)

end
