(* ===== verification/Ble_Session.thy ===== *)
theory Ble_Session
  imports Poller_Props Probe_Adv Sensor_Decode
begin

text \<open>
  The BLE sessions of \<open>src/ble.rs\<close>: reading a probe and offering it its pending motor command
  (\<open>read_probe_and_maybe_dispatch_motor\<close>), and the two sessions with a probe in setup mode. The
  callback that adjusts connection parameters on connect and the log output are left out. A service
  or characteristic handle is named by its UUID. Messages built with \<open>format!("..: {e:#}")\<close> are
  \<open>Context\<close> errors. \<open>read_required\<close> and \<open>confirm_setup\<close> are shapes the source repeats.
\<close>

section \<open>Data\<close>

record probe_reading =
  pb_probe_uuid :: string
  pb_air_temperature_c :: f64
  pb_air_pressure_pa :: f64
  pb_air_humidity_pct :: f64
  pb_soil_temperature_c :: f64
  pb_soil_humidity_pct :: f64
  pb_timestamp :: i64

record probe_session_result =
  ps_reading :: probe_reading
  ps_motor_dispatch_result :: "(dispatch_failure + unit) option"
  ps_last_motor_result :: "probe_motor_result option"

record setup_probe =
  sp_probe_uuid :: string
  sp_name :: string
  sp_version_major :: u8
  sp_version_minor :: u8

section \<open>GATT calls\<close>

definition connect :: "ble_addr \<Rightarrow> unit res io" where
  "connect addr = ask (\<lambda>E h. ble_connect_at E h addr) (BleConnect addr)"

definition disconnect :: "unit io" where
  "disconnect = emit BleDisconnect"

definition get_service :: "string \<Rightarrow> unit res io" where
  "get_service uuid = ask (\<lambda>E h. get_service_at E h uuid) (GetService uuid)"

definition get_characteristic :: "string \<Rightarrow> unit res io" where
  "get_characteristic uuid = ask (\<lambda>E h. get_characteristic_at E h uuid) (GetCharacteristic uuid)"

definition read_value :: "string \<Rightarrow> bytes res io" where
  "read_value uuid = ask (\<lambda>E h. read_value_at E h uuid) (ReadValue uuid)"

definition write_value :: "string \<Rightarrow> bytes \<Rightarrow> unit res io" where
  "write_value uuid payload = ask (\<lambda>E h. write_value_at E h uuid payload) (WriteValue uuid payload)"

text \<open>
  The five required characteristics of a reading: a missing one skips the probe, a failing read is
  an error with its context.
\<close>

definition read_required :: "string \<Rightarrow> string \<Rightarrow> (bytes \<Rightarrow> 'a option res io) \<Rightarrow> 'a option res io" where
  "read_required uuid context rest = do {
     chr \<leftarrow> get_characteristic uuid;
     case chr of
       Inl _ \<Rightarrow> State_Monad.return (Inr None)
     | Inr _ \<Rightarrow> do {
         raw \<leftarrow> read_value uuid;
         case raw of
           Inl e \<Rightarrow> State_Monad.return (Inl (Context context e))
         | Inr raw \<Rightarrow> rest raw
       }
   }"

text \<open>The decoding after the reads, first error first.\<close>

definition decode_reading :: "string \<Rightarrow> bytes \<Rightarrow> bytes \<Rightarrow> bytes \<Rightarrow> bytes \<Rightarrow> bytes \<Rightarrow>
    (i64 \<Rightarrow> probe_reading) res" where
  "decode_reading probe_uuid air_temp_raw air_pressure_raw air_hum_raw soil_temp_raw soil_hum_raw =
     (case parse_centi_celsius_i16 air_temp_raw ''air temperature'' of Inl e \<Rightarrow> Inl e
      | Inr air_temperature_c \<Rightarrow>
      (case parse_pressure_pa air_pressure_raw of Inl e \<Rightarrow> Inl e
      | Inr air_pressure_pa \<Rightarrow>
      (case parse_centi_percent_u16 air_hum_raw ''air humidity'' of Inl e \<Rightarrow> Inl e
      | Inr air_humidity_pct \<Rightarrow>
      (case parse_centi_celsius_i16 soil_temp_raw ''soil temperature'' of Inl e \<Rightarrow> Inl e
      | Inr soil_temperature_c \<Rightarrow>
      (case parse_centi_percent_u16 soil_hum_raw ''soil humidity'' of Inl e \<Rightarrow> Inl e
      | Inr soil_humidity_pct \<Rightarrow>
      Inr (\<lambda>timestamp. \<lparr>pb_probe_uuid = probe_uuid, pb_air_temperature_c = air_temperature_c,
        pb_air_pressure_pa = air_pressure_pa, pb_air_humidity_pct = air_humidity_pct,
        pb_soil_temperature_c = soil_temperature_c, pb_soil_humidity_pct = soil_humidity_pct,
        pb_timestamp = timestamp\<rparr>))))))"

definition read_probe_from_service :: "ble_addr \<Rightarrow> probe_reading option res io" where
  "read_probe_from_service device =
     read_required AIR_TEMP_CHAR_UUID ''air temperature read failed'' (\<lambda>air_temp_raw.
     read_required AIR_PRESSURE_CHAR_UUID ''air pressure read failed'' (\<lambda>air_pressure_raw.
     read_required AIR_HUM_CHAR_UUID ''air humidity read failed'' (\<lambda>air_hum_raw.
     read_required SOIL_TEMP_CHAR_UUID ''soil temperature read failed'' (\<lambda>soil_temp_raw.
     read_required SOIL_HUM_CHAR_UUID ''soil humidity read failed'' (\<lambda>soil_hum_raw. do {
       addr \<leftarrow> library (\<lambda>E. addr_display E device);
       chr \<leftarrow> get_characteristic PROBE_UUID_CHAR_UUID;
       probe_uuid \<leftarrow> (case chr of
           Inr _ \<Rightarrow> do {
             raw \<leftarrow> read_value PROBE_UUID_CHAR_UUID;
             State_Monad.return (case raw of
               Inl e \<Rightarrow> Inl (Context ''probe uuid read failed'' e)
             | Inr raw \<Rightarrow> Inr (case parse_probe_uuid_ascii raw of Some u \<Rightarrow> u | None \<Rightarrow> addr))
           }
         | Inl _ \<Rightarrow> State_Monad.return (Inr addr));
       case probe_uuid of
         Inl e \<Rightarrow> State_Monad.return (Inl e)
       | Inr probe_uuid \<Rightarrow>
           (case decode_reading probe_uuid air_temp_raw air_pressure_raw air_hum_raw soil_temp_raw
               soil_hum_raw of
              Inl e \<Rightarrow> State_Monad.return (Inl e)
            | Inr reading \<Rightarrow> do {
                timestamp \<leftarrow> get_unix_now_ms;
                State_Monad.return (Inr (Some (reading timestamp)))
              })
     })))))"

section \<open>The motor command and its result\<close>

definition write_motor_payload_to_service ::
  "string \<Rightarrow> u8 \<Rightarrow> i32 \<Rightarrow> i64 \<Rightarrow> (dispatch_failure + unit) io" where
  "write_motor_payload_to_service command_id action duration_ms expires_at_ms = do {
     characteristic \<leftarrow> get_characteristic MOTOR_COMMAND_CHAR_UUID;
     case characteristic of
       Inl e \<Rightarrow> State_Monad.return
         (Inl (BleWriteFailed (Context ''motor command characteristic missing'' e)))
     | Inr _ \<Rightarrow> do {
         now_ms \<leftarrow> get_unix_now_ms;
         if sint expires_at_ms \<le> sint now_ms then State_Monad.return (Inl DispatchExpired)
         else do {
           built \<leftarrow> build_motor_command_payload command_id action duration_ms expires_at_ms;
           case built of
             Inl e \<Rightarrow> do {
               now_ms \<leftarrow> get_unix_now_ms;
               State_Monad.return (Inl (if sint expires_at_ms \<le> sint now_ms then DispatchExpired
                 else BleWriteFailed (Context ''motor payload encode failed'' e)))
             }
           | Inr payload \<Rightarrow> do {
               written \<leftarrow> write_value MOTOR_COMMAND_CHAR_UUID payload;
               case written of
                 Inl e \<Rightarrow> State_Monad.return
                   (Inl (BleWriteFailed (Context ''motor command write failed'' e)))
               | Inr _ \<Rightarrow> State_Monad.return (Inr ())
             }
         }
       }
   }"

definition read_motor_result_from_service :: "probe_motor_result option res io" where
  "read_motor_result_from_service = do {
     characteristic \<leftarrow> get_characteristic MOTOR_RESULT_CHAR_UUID;
     case characteristic of
       Inl _ \<Rightarrow> State_Monad.return (Inr None)
     | Inr _ \<Rightarrow> do {
         raw \<leftarrow> read_value MOTOR_RESULT_CHAR_UUID;
         State_Monad.return (case raw of
           Inl e \<Rightarrow> Inl (Context ''motor result read failed'' e)
         | Inr raw \<Rightarrow> rs_val (parse_motor_result_payload raw))
       }
   }"

section \<open>A session with a probe\<close>

definition read_probe_and_maybe_dispatch_motor :: "ble_addr \<Rightarrow>
    (string \<Rightarrow> (string \<times> u8 \<times> i32 \<times> i64) option) \<Rightarrow> probe_session_result option res io" where
  "read_probe_and_maybe_dispatch_motor device resolve_motor_dispatch_request = do {
     connected \<leftarrow> connect device;
     case connected of
       Inl e \<Rightarrow> State_Monad.return (Inl e)
     | Inr _ \<Rightarrow> do {
         service \<leftarrow> get_service ENVIRONMENTAL_SENSING_SERVICE_UUID;
         case service of
           Inl _ \<Rightarrow> do { _ \<leftarrow> disconnect; State_Monad.return (Inr None) }
         | Inr _ \<Rightarrow> do {
             reading \<leftarrow> read_probe_from_service device;
             case reading of
               Inl err \<Rightarrow> do { _ \<leftarrow> disconnect; State_Monad.return (Inl err) }
             | Inr None \<Rightarrow> do { _ \<leftarrow> disconnect; State_Monad.return (Inr None) }
             | Inr (Some reading) \<Rightarrow> do {
                 motor_dispatch_result \<leftarrow>
                   (case resolve_motor_dispatch_request (pb_probe_uuid reading) of
                      Some (command_id, action, duration_ms, expires_at_ms) \<Rightarrow> do {
                        r \<leftarrow> write_motor_payload_to_service command_id action duration_ms
                          expires_at_ms;
                        State_Monad.return (Some r)
                      }
                    | None \<Rightarrow> State_Monad.return None);
                 last_motor_result \<leftarrow> read_motor_result_from_service;
                 _ \<leftarrow> disconnect;
                 State_Monad.return (Inr (Some \<lparr>ps_reading = reading,
                   ps_motor_dispatch_result = motor_dispatch_result,
                   ps_last_motor_result = (case last_motor_result of Inl _ \<Rightarrow> None | Inr r \<Rightarrow> r)\<rparr>))
               }
           }
       }
   }"

section \<open>Probes in setup mode\<close>

text \<open>The confirmation at the end of both setup sessions.\<close>

definition confirm_setup :: "unit res io" where
  "confirm_setup = do {
     characteristic \<leftarrow> get_characteristic PROBE_SETUP_CONFIRM_CHAR_UUID;
     case characteristic of
       Inr _ \<Rightarrow> do {
         written \<leftarrow> write_value PROBE_SETUP_CONFIRM_CHAR_UUID PROBE_SETUP_CONFIRM_MAGIC;
         case written of
           Inl e \<Rightarrow> State_Monad.return (Inl (Context ''setup probe confirmation write failed'' e))
         | Inr _ \<Rightarrow> do { _ \<leftarrow> disconnect; State_Monad.return (Inr ()) }
       }
     | Inl e \<Rightarrow> do {
         _ \<leftarrow> disconnect;
         State_Monad.return (Inl (Context ''setup probe confirmation characteristic missing'' e))
       }
   }"

definition acknowledge_setup_probe :: "ble_addr \<Rightarrow> unit res io" where
  "acknowledge_setup_probe device = do {
     connected \<leftarrow> connect device;
     case connected of
       Inl e \<Rightarrow> State_Monad.return (Inl e)
     | Inr _ \<Rightarrow> do {
         service \<leftarrow> get_service ENVIRONMENTAL_SENSING_SERVICE_UUID;
         case service of
           Inl e \<Rightarrow> do {
             _ \<leftarrow> disconnect;
             State_Monad.return (Inl (Context ''setup probe environmental service missing'' e))
           }
         | Inr _ \<Rightarrow> confirm_setup
       }
   }"

definition read_setup_probe_identity :: "probe_candidate \<Rightarrow> setup_probe res io" where
  "read_setup_probe_identity candidate = do {
     connected \<leftarrow> connect (cand_device candidate);
     case connected of
       Inl e \<Rightarrow> State_Monad.return (Inl e)
     | Inr _ \<Rightarrow> do {
         service \<leftarrow> get_service ENVIRONMENTAL_SENSING_SERVICE_UUID;
         case service of
           Inl e \<Rightarrow> do {
             _ \<leftarrow> disconnect;
             State_Monad.return (Inl (Context ''setup probe environmental service missing'' e))
           }
         | Inr _ \<Rightarrow> do {
             addr \<leftarrow> library (\<lambda>E. addr_display E (cand_device candidate));
             chr \<leftarrow> get_characteristic PROBE_UUID_CHAR_UUID;
             probe_uuid \<leftarrow> (case chr of
                 Inr _ \<Rightarrow> do {
                   raw \<leftarrow> read_value PROBE_UUID_CHAR_UUID;
                   State_Monad.return (case raw of
                     Inl e \<Rightarrow> Inl e
                   | Inr raw \<Rightarrow> Inr (case parse_probe_uuid_ascii raw of Some u \<Rightarrow> u | None \<Rightarrow> addr))
                 }
               | Inl _ \<Rightarrow> State_Monad.return (Inr addr));
             case probe_uuid of
               Inl e \<Rightarrow> do {
                 _ \<leftarrow> disconnect;
                 State_Monad.return (Inl (Context ''setup probe uuid read failed'' e))
               }
             | Inr probe_uuid \<Rightarrow> do {
                 confirmed \<leftarrow> confirm_setup;
                 State_Monad.return (case confirmed of
                   Inl e \<Rightarrow> Inl e
                 | Inr _ \<Rightarrow> Inr \<lparr>sp_probe_uuid = probe_uuid, sp_name = meta_name (cand_meta candidate),
                     sp_version_major = version_major (cand_meta candidate),
                     sp_version_minor = version_minor (cand_meta candidate)\<rparr>)
               }
           }
       }
   }"

definition discover_setup_probes :: "setup_probe list res io" where
  "discover_setup_probes = do {
     candidates \<leftarrow> scan_probe_candidates;
     case candidates of
       Inl e \<Rightarrow> State_Monad.return (Inl e)
     | Inr candidates \<Rightarrow> do {
         probes \<leftarrow> for_each (filter (\<lambda>candidate. meta_mode (cand_meta candidate) = Setup) candidates)
           (\<lambda>candidate probes. do {
              r \<leftarrow> read_setup_probe_identity candidate;
              State_Monad.return (case r of Inr probe \<Rightarrow> probes @ [probe] | Inl _ \<Rightarrow> probes)
            }) [];
         State_Monad.return (Inr probes)
       }
   }"

section \<open>The link\<close>

text \<open>
  One event, from connected or not to connected or not: a connection is opened only while there is
  none, GATT calls and the disconnect need one, and a scan runs without one.
\<close>

fun link_step :: "event \<Rightarrow> bool \<Rightarrow> bool option" where
  "link_step (BleConnect _ r) linked = (if linked then None else Some (\<exists>u. r = Inr u))"
| "link_step BleDisconnect linked = (if linked then Some False else None)"
| "link_step (GetService _ _) linked = (if linked then Some True else None)"
| "link_step (GetCharacteristic _ _) linked = (if linked then Some True else None)"
| "link_step (ReadValue _ _) linked = (if linked then Some True else None)"
| "link_step (WriteValue _ _ _) linked = (if linked then Some True else None)"
| "link_step (ScanRun _ _) linked = (if linked then None else Some False)"
| "link_step e linked = Some linked"

definition link_run :: "history \<Rightarrow> bool \<Rightarrow> bool option" where
  "link_run = run_steps link_step"

lemma link_run_simps [simp]:
  "link_run [] linked = Some linked"
  "link_run (e # tr) linked = Option.bind (link_step e linked) (link_run tr)"
  "link_run (a @ b) linked = Option.bind (link_run a linked) (link_run b)"
  by (simp_all add: link_run_def run_steps_append)

text \<open>Events of a session after it is connected and before it ends, writes apart.\<close>

fun quiet :: "event \<Rightarrow> bool" where
  "quiet (ClockRead _) = True"
| "quiet (GetService _ _) = True"
| "quiet (GetCharacteristic _ _) = True"
| "quiet (ReadValue _ _) = True"
| "quiet _ = False"

lemma quiet_link: "list_all quiet tr \<Longrightarrow> link_run tr True = Some True"
proof (induction tr)
  case (Cons e tr)
  then show ?case by (cases e) simp_all
qed simp

lemma quiet_gate: "list_all quiet tr \<Longrightarrow> gate_held tr"
proof (induction tr)
  case Nil
  then show ?case by (simp add: gate_held_def)
next
  case (Cons e tr)
  then show ?case by (cases e) (auto intro: gate_held_Cons)
qed

section \<open>GATT calls in traces\<close>

lemma traced_connect [traced_intro]: "(\<And>r. Q [BleConnect a r] r) \<Longrightarrow> traced E (connect a) Q"
  unfolding connect_def by (intro traced_intro)

lemma traced_disconnect [traced_intro]: "Q [BleDisconnect] () \<Longrightarrow> traced E disconnect Q"
  unfolding disconnect_def by (intro traced_intro)

lemma traced_get_service [traced_intro]:
  "(\<And>r. Q [GetService u r] r) \<Longrightarrow> traced E (get_service u) Q"
  unfolding get_service_def by (intro traced_intro)

lemma traced_get_characteristic [traced_intro]:
  "(\<And>r. Q [GetCharacteristic u r] r) \<Longrightarrow> traced E (get_characteristic u) Q"
  unfolding get_characteristic_def by (intro traced_intro)

lemma traced_read_value [traced_intro]: "(\<And>r. Q [ReadValue u r] r) \<Longrightarrow> traced E (read_value u) Q"
  unfolding read_value_def by (intro traced_intro)

lemma traced_write_value [traced_intro]:
  "(\<And>r. Q [WriteValue u p r] r) \<Longrightarrow> traced E (write_value u p) Q"
  unfolding write_value_def by (intro traced_intro)

lemma traced_read_required [traced_intro]:
  assumes "\<And>e. Q [GetCharacteristic u (Inl e)] (Inr None)"
    and "\<And>e. Q [GetCharacteristic u (Inr ()), ReadValue u (Inl e)] (Inl (Context c e))"
    and "\<And>raw. traced E (rest raw)
      (\<lambda>tr. Q (GetCharacteristic u (Inr ()) # ReadValue u (Inr raw) # tr))"
  shows "traced E (read_required u c rest) Q"
  unfolding read_required_def
  by (intro traced_intro) (auto intro: assms(1,2) traced_conseq [OF assms(3)])

section \<open>A reading\<close>

text \<open>
  The reading a trace justifies: each of its five values is decoded from the bytes that were read
  from its characteristic, and its time is a clock reading of the trace.
\<close>

definition justified_reading :: "history \<Rightarrow> probe_reading \<Rightarrow> bool" where
  "justified_reading tr reading \<longleftrightarrow> (\<exists>a p h s m t f.
     ReadValue AIR_TEMP_CHAR_UUID (Inr a) \<in> set tr \<and> ReadValue AIR_PRESSURE_CHAR_UUID (Inr p) \<in> set tr \<and>
     ReadValue AIR_HUM_CHAR_UUID (Inr h) \<in> set tr \<and> ReadValue SOIL_TEMP_CHAR_UUID (Inr s) \<in> set tr \<and>
     ReadValue SOIL_HUM_CHAR_UUID (Inr m) \<in> set tr \<and> ClockRead t \<in> set tr \<and>
     decode_reading (pb_probe_uuid reading) a p h s m = Inr f \<and> reading = f (clock_ms t))"

definition reading_trace :: "history \<Rightarrow> probe_reading option res \<Rightarrow> bool" where
  "reading_trace tr r \<longleftrightarrow> list_all quiet tr \<and>
     (case r of Inr (Some reading) \<Rightarrow> justified_reading tr reading | _ \<Rightarrow> True)"

lemma decode_reading_uuid: "decode_reading u a p h s m = Inr f \<Longrightarrow> pb_probe_uuid (f t) = u"
  by (auto simp: decode_reading_def split: sum.splits)

lemma justified_readingI:
  assumes "decode_reading u a p h s m = Inr f"
    and "ReadValue AIR_TEMP_CHAR_UUID (Inr a) \<in> set tr" "ReadValue AIR_PRESSURE_CHAR_UUID (Inr p) \<in> set tr"
    "ReadValue AIR_HUM_CHAR_UUID (Inr h) \<in> set tr" "ReadValue SOIL_TEMP_CHAR_UUID (Inr s) \<in> set tr"
    "ReadValue SOIL_HUM_CHAR_UUID (Inr m) \<in> set tr" "ClockRead t \<in> set tr"
  shows "justified_reading tr (f (clock_ms t))"
  unfolding justified_reading_def decode_reading_uuid [OF assms(1)]
  using assms by blast

lemma traced_read_probe_from_service:
  "traced E (read_probe_from_service device) reading_trace"
  unfolding read_probe_from_service_def
  by (intro traced_intro)
    (auto simp: reading_trace_def split: sum.splits intro!: traced_return
      elim!: justified_readingI [where t = t for t])

section \<open>Writing a motor command\<close>

inductive motor_write :: "string \<Rightarrow> u8 \<Rightarrow> i32 \<Rightarrow> i64 \<Rightarrow> history \<Rightarrow> dispatch_failure + unit \<Rightarrow> bool"
  for k action d expires where
  missing: "motor_write k action d expires [GetCharacteristic MOTOR_COMMAND_CHAR_UUID (Inl e)]
     (Inl (BleWriteFailed (Context ''motor command characteristic missing'' e)))"
| expired: "sint expires \<le> sint (clock_ms t) \<Longrightarrow>
     motor_write k action d expires [GetCharacteristic MOTOR_COMMAND_CHAR_UUID (Inr ()), ClockRead t]
       (Inl DispatchExpired)"
| unencodable: "sint (clock_ms t) < sint expires \<Longrightarrow> tr = [] \<or> (\<exists>v. tr = [ClockRead v]) \<Longrightarrow>
     motor_write k action d expires
       (GetCharacteristic MOTOR_COMMAND_CHAR_UUID (Inr ()) # ClockRead t # tr @ [ClockRead u])
       (Inl (if sint expires \<le> sint (clock_ms u) then DispatchExpired
             else BleWriteFailed (Context ''motor payload encode failed'' e)))"
| attempted: "sint (clock_ms t) < sint expires \<Longrightarrow> sint (clock_ms v) < sint expires \<Longrightarrow>
     action \<in> {0, 1} \<Longrightarrow> uuid_of_text k = Some cid \<Longrightarrow> length cid = 16 \<Longrightarrow>
     payload = motor_payload_of (action, cid, clamp_duration_ms d, remaining_expiry_ms expires (clock_ms v)) \<Longrightarrow>
     motor_write k action d expires
       [GetCharacteristic MOTOR_COMMAND_CHAR_UUID (Inr ()), ClockRead t, ClockRead v,
        WriteValue MOTOR_COMMAND_CHAR_UUID payload r]
       (case r of Inl e \<Rightarrow> Inl (BleWriteFailed (Context ''motor command write failed'' e)) | Inr _ \<Rightarrow> Inr ())"

lemma uuid_of_text_parse:
  "parse_uuid_compact_bytes s (replicate 16 0) = Inr cid \<Longrightarrow> uuid_of_text s = Some cid \<and> length cid = 16"
  using parse_uuid_length [of s "replicate 16 0" cid] by (simp add: uuid_of_text_def)

lemma traced_build_payload [traced_intro]:
  assumes "\<And>tr e. tr = [] \<or> (\<exists>v. tr = [ClockRead v]) \<Longrightarrow> Q tr (Inl e)"
    and "\<And>cid v. action \<in> {0, 1} \<Longrightarrow> uuid_of_text s = Some cid \<Longrightarrow> length cid = 16 \<Longrightarrow>
      sint (clock_ms v) < sint expires \<Longrightarrow>
      Q [ClockRead v] (Inr (motor_payload_of (action, cid, clamp_duration_ms d,
        remaining_expiry_ms expires (clock_ms v))))"
  shows "traced E (build_motor_command_payload s action d expires) Q"
proof (rule traced_conseq [OF traced_build_motor_command_payload], elim disjE exE conjE)
  fix tr r cid t
  assume "action \<in> {0, 1}" "parse_uuid_compact_bytes s (replicate 16 0) = Inr cid"
    and tr: "tr = [ClockRead t]" and r: "r = (if sint expires \<le> sint (clock_ms t) then Inl ExpiredBeforeEncode
      else Inr (motor_payload_of (action, cid, clamp_duration_ms d, remaining_expiry_ms expires (clock_ms t))))"
  then show "Q tr r"
    using uuid_of_text_parse [of s cid] assms(1) [of tr] assms(2) [of cid t]
    by (cases "sint expires \<le> sint (clock_ms t)") (simp_all del: insert_iff)
qed (simp_all add: assms(1))

lemma traced_write_motor_payload [traced_intro]:
  assumes "\<And>tr r. motor_write k action d expires tr r \<Longrightarrow> Q tr r"
  shows "traced E (write_motor_payload_to_service k action d expires) Q"
proof -
  have failed: "motor_write k action d expires
      (GetCharacteristic MOTOR_COMMAND_CHAR_UUID (Inr ()) # ClockRead t # tr @ [ClockRead u])
      (Inl (if sint expires \<le> sint (clock_ms u) then DispatchExpired
            else BleWriteFailed (Context ''motor payload encode failed'' e)))"
    if "\<not> sint expires \<le> sint (clock_ms t)" "tr = [] \<or> (\<exists>v. tr = [ClockRead v])" for t u tr e
    using that by (intro motor_write.unencodable) auto
  have written: "motor_write k action d expires
      [GetCharacteristic MOTOR_COMMAND_CHAR_UUID (Inr ()), ClockRead t, ClockRead v,
       WriteValue MOTOR_COMMAND_CHAR_UUID payload r] r'"
    if "\<not> sint expires \<le> sint (clock_ms t)" "sint (clock_ms v) < sint expires" "action \<in> {0, 1}"
      "uuid_of_text k = Some cid" "length cid = 16"
      "motor_payload_of (action, cid, clamp_duration_ms d, remaining_expiry_ms expires (clock_ms v)) = payload"
      "r' = (case r of Inl e \<Rightarrow> Inl (BleWriteFailed (Context ''motor command write failed'' e)) | Inr _ \<Rightarrow> Inr ())"
    for t v cid r r' payload
    unfolding that(7) by (rule motor_write.attempted [OF _ that(2-5) that(6) [symmetric]]) (use that(1) in simp)
  show ?thesis
    unfolding write_motor_payload_to_service_def
    by (intro traced_intro assms)
      (simp_all add: motor_write.missing motor_write.expired failed written del: insert_iff split: if_splits)
qed

section \<open>A session\<close>

text \<open>What is read back of the last motor result; what is done about a dispatch request.\<close>

definition result_trace :: "history \<Rightarrow> probe_motor_result option \<Rightarrow> bool" where
  "result_trace tr latest \<longleftrightarrow> list_all quiet tr \<and>
     (latest = None \<or> (\<exists>raw. ReadValue MOTOR_RESULT_CHAR_UUID (Inr raw) \<in> set tr \<and> latest = motor_result_of raw))"

definition dispatch_trace ::
  "(string \<times> u8 \<times> i32 \<times> i64) option \<Rightarrow> history \<Rightarrow> (dispatch_failure + unit) option \<Rightarrow> bool" where
  "dispatch_trace request tr result =
     (case request of
        None \<Rightarrow> tr = [] \<and> result = None
      | Some (k, action, d, expires) \<Rightarrow> \<exists>r. result = Some r \<and> motor_write k action d expires tr r)"

inductive session :: "ble_addr \<Rightarrow> (string \<Rightarrow> (string \<times> u8 \<times> i32 \<times> i64) option) \<Rightarrow> history \<Rightarrow>
    probe_session_result option res \<Rightarrow> bool" for device resolve where
  no_link: "session device resolve [BleConnect device (Inl e)] (Inl e)"
| unread: "list_all quiet tr \<Longrightarrow> r = Inr None \<or> (\<exists>e. r = Inl e) \<Longrightarrow>
    session device resolve (BleConnect device (Inr ()) # tr @ [BleDisconnect]) r"
| read: "list_all quiet rtr \<Longrightarrow> justified_reading rtr reading \<Longrightarrow>
    dispatch_trace (resolve (pb_probe_uuid reading)) mtr dispatched \<Longrightarrow> result_trace ltr latest \<Longrightarrow>
    session device resolve (BleConnect device (Inr ()) # rtr @ mtr @ ltr @ [BleDisconnect])
      (Inr (Some \<lparr>ps_reading = reading, ps_motor_dispatch_result = dispatched,
        ps_last_motor_result = latest\<rparr>))"

lemma traced_read_motor_result [traced_intro]:
  assumes "\<And>tr r. result_trace tr (case r of Inl _ \<Rightarrow> None | Inr latest \<Rightarrow> latest) \<Longrightarrow> Q tr r"
  shows "traced E read_motor_result_from_service Q"
  unfolding read_motor_result_from_service_def
  by (intro traced_intro assms)
    (auto simp: result_trace_def motor_result_of_def split: sum.splits)

lemma justified_reading_mono:
  "justified_reading tr reading \<Longrightarrow> set tr \<subseteq> set tr' \<Longrightarrow> justified_reading tr' reading"
  unfolding justified_reading_def by blast

lemma traced_session:
  "traced E (read_probe_and_maybe_dispatch_motor device resolve) (session device resolve)"
proof -
  have no_service: "session device resolve [BleConnect device (Inr ()), GetService u r, BleDisconnect] (Inr None)"
    for u r
    using session.unread [of "[GetService u r]"] by auto
  have unread: "session device resolve (BleConnect device (Inr ()) # GetService u (Inr ()) # tr @ [BleDisconnect]) r"
    if "reading_trace tr r'" "r = Inr None \<or> (\<exists>e. r = Inl e)" for u tr r r'
    using session.unread [of "GetService u (Inr ()) # tr"] that by (auto simp: reading_trace_def)
  have read: "session device resolve
      (BleConnect device (Inr ()) # GetService u (Inr ()) # rtr @ mtr @ ltr @ [BleDisconnect])
      (Inr (Some \<lparr>ps_reading = reading, ps_motor_dispatch_result = dispatched,
        ps_last_motor_result = latest\<rparr>))"
    if "reading_trace rtr (Inr (Some reading))" "dispatch_trace (resolve (pb_probe_uuid reading)) mtr dispatched"
      "result_trace ltr latest" for u rtr mtr ltr reading dispatched latest
  proof -
    from that(1) have "justified_reading (GetService u (Inr ()) # rtr) reading"
      by (auto simp: reading_trace_def intro: justified_reading_mono)
    from session.read [of "GetService u (Inr ()) # rtr" reading resolve, OF _ this that(2,3)] that(1) show ?thesis by (simp add: reading_trace_def)
  qed
  note read_idle = read [where mtr = "[]", unfolded dispatch_trace_def append_Nil]
  show ?thesis
    unfolding read_probe_and_maybe_dispatch_motor_def
    by (intro traced_intro traced_conseq [OF traced_read_probe_from_service])
      (auto intro: session.no_link no_service unread read_idle read [unfolded dispatch_trace_def])
qed

end
