(* ===== verification/Ble_Props.thy ===== *)
theory Ble_Props
  imports Ble_Session
begin

text \<open>
  Properties of the BLE sessions: what is written to a probe and when (\<open>live_write\<close>,
  \<open>unlimited_command_never_sent\<close>), what a session with a probe returns (\<open>session_justified\<close>), and the
  sessions with probes in setup mode (\<open>setup_session\<close>, \<open>picked_up\<close>).
\<close>

section \<open>What is written to probes\<close>

text \<open>
  A write that carries the given command while it is live: to the motor characteristic, a payload
  from which the probe decodes the action and the id of the command, with a duration of at most
  five seconds, after a clock reading before its expiry.
\<close>

fun live_write :: "string \<Rightarrow> u8 \<Rightarrow> i64 \<Rightarrow> history \<Rightarrow> event \<Rightarrow> bool" where
  "live_write k action expires tr (WriteValue u p _) = (u = MOTOR_COMMAND_CHAR_UUID \<and>
     (\<exists>t cid duration left. ClockRead t \<in> set tr \<and> sint (clock_ms t) < sint expires \<and>
        uuid_of_text k = Some cid \<and> decode_motor_payload p = Some (action, cid, duration, left) \<and>
        uint duration \<le> 5000))"
| "live_write _ _ _ _ _ = True"

fun is_write :: "event \<Rightarrow> bool" where
  "is_write (WriteValue _ _ _) = True"
| "is_write _ = False"

lemma quiet_not_write: "list_all quiet tr \<Longrightarrow> filter is_write tr = []"
proof (induction tr)
  case (Cons e tr)
  then show ?case by (cases e) simp_all
qed simp

lemma live_write_mono: "live_write k action expires tr e \<Longrightarrow> set tr \<subseteq> set tr' \<Longrightarrow> live_write k action expires tr' e"
  by (cases e) auto

lemma motor_write_live:
  assumes "motor_write k action d expires tr r"
  shows "list_all (live_write k action expires tr) tr" "length (filter is_write tr) \<le> 1"
    and "(r = Inr ()) = (\<exists>p. WriteValue MOTOR_COMMAND_CHAR_UUID p (Inr ()) \<in> set tr)"
    and "link_run tr True = Some True" "gate_held tr"
proof -
  have quiet: "list_all quiet us \<and> filter is_write us = []" if "us = [] \<or> (\<exists>v. us = [ClockRead v])" for us
    using that by auto
  show "list_all (live_write k action expires tr) tr"
    using assms
  proof cases
    case (attempted t v cid payload x)
    have "decode_motor_payload payload = Some (action, cid, clamp_duration_ms d,
        remaining_expiry_ms expires (clock_ms v))"
      unfolding attempted(8) using attempted(7) by (intro motor_payload.dec_enc) simp
    with attempted show ?thesis by (auto simp: uint_clamp_duration_ms)
  qed (auto)
  show "length (filter is_write tr) \<le> 1"
    "(r = Inr ()) = (\<exists>p. WriteValue MOTOR_COMMAND_CHAR_UUID p (Inr ()) \<in> set tr)"
    "link_run tr True = Some True" "gate_held tr"
    using assms by (cases; auto simp: gate_held_def split: sum.splits)+
qed


text \<open>The sweep keeps a command without a limit, whatever the clock says.\<close>

lemma sweep_keeps_unlimited:
  "sweep hub jwt cs d tr ks d' \<Longrightarrow> c \<in> set cs \<Longrightarrow> sint (pc_expires_at c) \<le> 0 \<Longrightarrow> c \<in> set ks"
proof (induction rule: sweep.induct)
  case (drop t c' atr ok cs u v d tr ks d')
  then have "c' \<noteq> c" by (auto simp: due_def)
  with drop show ?case by simp
qed auto

text \<open>
  C39: a limit of the two expiry checks as they are written: for the queue a command whose expiry is zero
  or negative never expires, so that the sweep keeps it, and yet it is never written to a probe:
  while the clock stands after 1970 every attempt to write it fails.
\<close>

theorem unlimited_command_never_sent:
  assumes "sint (pc_expires_at c) \<le> 0" and "c \<in> set (pending p)"
  shows "traced E (pending_command_is_expired c) (\<lambda>_ expired. \<not> expired) \<and>
    traced E (expire_pending_commands hub jwt p) (\<lambda>_ q. c \<in> set (pending q)) \<and>
    traced E (write_motor_payload_to_service (pc_command_id c) (pc_action c) (pc_duration_ms c)
        (pc_expires_at c)) (\<lambda>tr r. r \<noteq> Inr () \<and> filter is_write tr = [] \<or>
      (\<exists>t. ClockRead t \<in> set tr \<and> sint (clock_ms t) < 0))"
proof (intro conjI)
  show "traced E (pending_command_is_expired c) (\<lambda>_ expired. \<not> expired)"
    by (rule traced_pending_command_is_expired) (use assms(1) in simp)
  show "traced E (expire_pending_commands hub jwt p) (\<lambda>_ q. c \<in> set (pending q))"
    by (rule traced_conseq [OF traced_expire_pending_commands]) (auto intro: sweep_keeps_unlimited [OF _ assms(2,1)])
  show "traced E (write_motor_payload_to_service (pc_command_id c) (pc_action c) (pc_duration_ms c)
        (pc_expires_at c)) (\<lambda>tr r. r \<noteq> Inr () \<and> filter is_write tr = [] \<or>
      (\<exists>t. ClockRead t \<in> set tr \<and> sint (clock_ms t) < 0))"
  proof (rule traced_write_motor_payload)
    fix tr r assume "motor_write (pc_command_id c) (pc_action c) (pc_duration_ms c) (pc_expires_at c) tr r"
    then show "r \<noteq> Inr () \<and> filter is_write tr = [] \<or> (\<exists>t. ClockRead t \<in> set tr \<and> sint (clock_ms t) < 0)"
      using assms(1) by cases (auto intro: less_le_trans)
  qed
qed

theorem unlimited_command_never_sent_witness:
  "fst (run_state (write_motor_payload_to_service ''0a0a0a0a-0a0a-0a0a-0a0a-0a0a0a0a0a0a'' 1 100 0)
     calm_world) \<noteq> Inr ()"
proof -
  let ?c = "sample_command ''0a0a0a0a-0a0a-0a0a-0a0a-0a0a0a0a0a0a'' 0"
  let ?m = "write_motor_payload_to_service (pc_command_id ?c) (pc_action ?c) (pc_duration_ms ?c)
    (pc_expires_at ?c)"
  have clock: "list_all (\<lambda>e. case e of ClockRead t \<Rightarrow> clock_ms t = 1000 | _ \<Rightarrow> True)
      (hist (snd (run_state ?m calm_world)))"
    by code_simp
  have "sint (pc_expires_at ?c) \<le> 0" by (simp add: sample_command_def)
  from unlimited_command_never_sent [OF this, of "empty_poller\<lparr>pending := [?c]\<rparr>"]
  have "traced (env_of calm_world) ?m (\<lambda>tr r. r \<noteq> Inr () \<and> filter is_write tr = [] \<or>
      (\<exists>t. ClockRead t \<in> set tr \<and> sint (clock_ms t) < 0))" by simp
  from traced_fresh (1) [of calm_world ?m, OF this] clock
  show ?thesis by (auto simp: sample_command_def list_all_iff split: event.splits)
qed

lemma decode_reading_humidity:
  assumes "decode_reading u a p h s m = Inr f"
  shows "0 \<le> pb_air_humidity_pct (f t) \<and> pb_air_humidity_pct (f t) \<le> 100 \<and>
    0 \<le> pb_soil_humidity_pct (f t) \<and> pb_soil_humidity_pct (f t) \<le> 100"
  using assms by (auto simp: decode_reading_def dest: percent_range split: sum.splits)

lemma justified_reading_humidity:
  "justified_reading tr reading \<Longrightarrow>
     0 \<le> pb_air_humidity_pct reading \<and> pb_air_humidity_pct reading \<le> 100 \<and>
     0 \<le> pb_soil_humidity_pct reading \<and> pb_soil_humidity_pct reading \<le> 100"
  unfolding justified_reading_def using decode_reading_humidity by blast

text \<open>Quiet events contain no write, and a session's result is justified by its trace.\<close>

lemma quiet_no_write: "list_all quiet tr \<Longrightarrow> WriteValue u p r \<notin> set tr"
  by (auto simp: list_all_iff)

lemma dispatch_trace_facts:
  assumes "dispatch_trace request tr dispatched"
  shows "link_run tr True = Some True" "gate_held tr" "length (filter is_write tr) \<le> 1"
    and "(dispatched = None) = (request = None)"
    and "(dispatched = Some (Inr ())) = (\<exists>p. WriteValue MOTOR_COMMAND_CHAR_UUID p (Inr ()) \<in> set tr)"
    and "case request of None \<Rightarrow> filter is_write tr = []
       | Some (k, action, d, expires) \<Rightarrow> list_all (live_write k action expires tr) tr"
  using assms motor_write_live
  by (auto simp: dispatch_trace_def gate_held_def split: option.splits; metis)+

definition session_justified :: "(string \<Rightarrow> (string \<times> u8 \<times> i32 \<times> i64) option) \<Rightarrow> history \<Rightarrow>
    probe_session_result option res \<Rightarrow> bool" where
  "session_justified resolve tr r \<longleftrightarrow>
     (case r of
        Inr (Some s) \<Rightarrow> justified_reading tr (ps_reading s) \<and>
          (ps_motor_dispatch_result s = None) = (resolve (pb_probe_uuid (ps_reading s)) = None) \<and>
          (ps_motor_dispatch_result s = Some (Inr ())) =
            (\<exists>p. WriteValue MOTOR_COMMAND_CHAR_UUID p (Inr ()) \<in> set tr) \<and>
          (case resolve (pb_probe_uuid (ps_reading s)) of
             None \<Rightarrow> filter is_write tr = []
           | Some (k, action, d, expires) \<Rightarrow> length (filter is_write tr) \<le> 1 \<and>
               list_all (live_write k action expires tr) tr) \<and>
          (ps_last_motor_result s = None \<or> (\<exists>raw. ReadValue MOTOR_RESULT_CHAR_UUID (Inr raw) \<in> set tr \<and>
             ps_last_motor_result s = motor_result_of raw))
      | _ \<Rightarrow> filter is_write tr = [])"

lemma quiet_live: "list_all quiet tr \<Longrightarrow> list_all (live_write k action expires tr') tr"
proof (induction tr)
  case (Cons e tr)
  then show ?case by (cases e) simp_all
qed simp

lemma session_facts:
  assumes "session device resolve tr r"
  shows "session_justified resolve tr r" "link_run tr False = Some False" "gate_held tr"
proof -
  show "session_justified resolve tr r" using assms
  proof cases
    case (read rtr reading mtr dispatched ltr latest)
    note d = dispatch_trace_facts [OF read(5)]
    have l: "list_all quiet ltr" using read(6) by (simp add: result_trace_def)
    have "justified_reading tr reading" using read(4) by (rule justified_reading_mono) (auto simp: read(1))
    moreover have "filter is_write tr = filter is_write mtr"
      using read(3) l by (simp add: read(1) quiet_not_write)
    moreover have "(\<exists>p. WriteValue MOTOR_COMMAND_CHAR_UUID p (Inr ()) \<in> set tr) =
        (\<exists>p. WriteValue MOTOR_COMMAND_CHAR_UUID p (Inr ()) \<in> set mtr)"
      using quiet_no_write [OF read(3)] quiet_no_write [OF l] by (simp add: read(1))
    moreover have "list_all (live_write k action expires tr) tr"
      if "list_all (live_write k action expires mtr) mtr" for k action expires
    proof -
      have "list_all (live_write k action expires tr) mtr"
        using that by (auto simp: list_all_iff read(1) intro: live_write_mono)
      then show ?thesis using read(3) l by (simp add: read(1) quiet_live)
    qed
    moreover have "latest = None \<or> (\<exists>raw. ReadValue MOTOR_RESULT_CHAR_UUID (Inr raw) \<in> set tr \<and>
        latest = motor_result_of raw)"
      using read(6) by (auto simp: result_trace_def read(1))
    ultimately show ?thesis
      using d(3-6) by (auto simp: session_justified_def read(2) split: option.splits)
  qed (auto simp: session_justified_def quiet_not_write)
  show "link_run tr False = Some False" using assms
  proof cases
    case (read rtr reading mtr dispatched ltr latest)
    then have "list_all quiet ltr" by (simp add: result_trace_def)
    then show ?thesis
      using quiet_link [OF read(3)] quiet_link dispatch_trace_facts(1) [OF read(5)] by (simp add: read(1))
  qed (simp_all add: quiet_link)
  show "gate_held tr" using assms
  proof cases
    case no_link
    then show ?thesis by (simp add: gate_held_def)
  next
    case (unread us)
    then show ?thesis using quiet_gate [of us] by (simp add: gate_held_def gate_run_append)
  next
    case (read rtr reading mtr dispatched ltr latest)
    then have "list_all quiet ltr" by (simp add: result_trace_def)
    with quiet_gate [OF read(3)] quiet_gate [of ltr] dispatch_trace_facts(2) [OF read(5)]
    show ?thesis by (simp add: read(1) gate_held_def gate_run_append)
  qed
qed


text \<open>The humidities of every reading lie between 0 and 100 percent.\<close>

theorem reading_humidity_range:
  "traced E (read_probe_and_maybe_dispatch_motor device resolve) (\<lambda>tr r.
     case r of
       Inr (Some s) \<Rightarrow> 0 \<le> pb_air_humidity_pct (ps_reading s) \<and> pb_air_humidity_pct (ps_reading s) \<le> 100 \<and>
         0 \<le> pb_soil_humidity_pct (ps_reading s) \<and> pb_soil_humidity_pct (ps_reading s) \<le> 100
     | _ \<Rightarrow> True)"
proof (rule traced_conseq [OF traced_session])
  fix tr r assume "session device resolve tr r"
  from session_facts(1) [OF this] show "case r of
       Inr (Some s) \<Rightarrow> 0 \<le> pb_air_humidity_pct (ps_reading s) \<and> pb_air_humidity_pct (ps_reading s) \<le> 100 \<and>
         0 \<le> pb_soil_humidity_pct (ps_reading s) \<and> pb_soil_humidity_pct (ps_reading s) \<le> 100
     | _ \<Rightarrow> True"
    using justified_reading_humidity
    by (auto simp: session_justified_def split: sum.splits option.splits)
qed

section \<open>Sessions with probes in setup mode\<close>

definition confirmation :: "unit res \<Rightarrow> event" where
  "confirmation r = WriteValue PROBE_SETUP_CONFIRM_CHAR_UUID PROBE_SETUP_CONFIRM_MAGIC r"

lemma confirmation_eq [simp]: "confirmation r = confirmation r' \<longleftrightarrow> r = r'"
  by (simp add: confirmation_def)

text \<open>
  The trace of a setup session: it writes nothing but the confirmation, at most once, counts as done
  exactly when the probe acknowledged it, and ends disconnected unless the confirmation failed.
\<close>

definition setup_session :: "history \<Rightarrow> bool \<Rightarrow> bool" where
  "setup_session tr ok \<longleftrightarrow> gate_held tr \<and>
     (if ok then filter is_write tr = [confirmation (Inr ())] \<and> link_run tr False = Some False
      else filter is_write tr = [] \<and> link_run tr False = Some False \<or>
        (\<exists>e. filter is_write tr = [confirmation (Inl e)] \<and> link_run tr False = Some True))"

lemma traced_confirm_setup [traced_intro]:
  assumes "\<And>e e'. Q [GetCharacteristic PROBE_SETUP_CONFIRM_CHAR_UUID (Inl e), BleDisconnect] (Inl e')"
    and "\<And>e e'. Q [GetCharacteristic PROBE_SETUP_CONFIRM_CHAR_UUID (Inr ()), confirmation (Inl e)] (Inl e')"
    and "Q [GetCharacteristic PROBE_SETUP_CONFIRM_CHAR_UUID (Inr ()), confirmation (Inr ()), BleDisconnect]
      (Inr ())"
  shows "traced E confirm_setup Q"
  unfolding confirm_setup_def
  by (intro traced_intro) (use assms in \<open>auto simp: confirmation_def\<close>)

lemma confirmation_steps [simp]:
  "is_write (confirmation r)" "link_step (confirmation r) True = Some True"
  "gate_step (confirmation r) True = Some True"
  by (simp_all add: confirmation_def)

lemma traced_acknowledge_setup_probe:
  "traced E (acknowledge_setup_probe device) (\<lambda>tr r. setup_session tr (\<exists>u. r = Inr u))"
  unfolding acknowledge_setup_probe_def
  by (intro traced_intro) (auto simp: setup_session_def gate_held_def)

text \<open>
  The session with one candidate: it starts by connecting to the candidate's device, and the probe it picks
  up has the name and the version the candidate advertised, and the uuid it told in the session (36
  bytes of UTF-8), or the address when it told none.
\<close>

definition tells_uuid :: "bytes \<Rightarrow> event \<Rightarrow> bool" where
  "tells_uuid raw e \<longleftrightarrow> e = ReadValue PROBE_UUID_CHAR_UUID (Inr raw) \<and> length raw = 36 \<and> from_utf8_ok raw"

definition told_uuid :: "string \<Rightarrow> history \<Rightarrow> string \<Rightarrow> bool" where
  "told_uuid address tr uuid \<longleftrightarrow>
     (if \<exists>raw. list_ex (tells_uuid raw) tr then \<exists>raw. list_ex (tells_uuid raw) tr \<and> uuid = str_of_bytes raw
      else uuid = address)"

definition setup_visit :: "env \<Rightarrow> probe_candidate \<Rightarrow> history \<Rightarrow> setup_probe option \<Rightarrow> bool" where
  "setup_visit E c tr found \<longleftrightarrow> setup_session tr (found \<noteq> None) \<and>
     (\<exists>r rest. tr = BleConnect (cand_device c) r # rest) \<and>
     (case found of
        None \<Rightarrow> True
      | Some probe \<Rightarrow> sp_name probe = meta_name (cand_meta c) \<and>
          sp_version_major probe = version_major (cand_meta c) \<and>
          sp_version_minor probe = version_minor (cand_meta c) \<and>
          told_uuid (addr_display E (cand_device c)) tr (sp_probe_uuid probe))"

definition ok_of :: "'a res \<Rightarrow> 'a option" where
  "ok_of r = (case r of Inl _ \<Rightarrow> None | Inr a \<Rightarrow> Some a)"

lemma ok_of_simps [simp]: "ok_of (Inl e) = None" "ok_of (Inr a) = Some a"
  by (simp_all add: ok_of_def)

lemma tells_uuid_simps [simp]:
  "tells_uuid raw (BleConnect a r) = False" "tells_uuid raw (GetService u s) = False"
  "tells_uuid raw (GetCharacteristic u s) = False" "tells_uuid raw (confirmation s) = False"
  "tells_uuid raw BleDisconnect = False"
  "tells_uuid raw (ReadValue PROBE_UUID_CHAR_UUID (Inr raw')) \<longleftrightarrow>
     raw = raw' \<and> length raw' = 36 \<and> from_utf8_ok raw'"
  by (auto simp: tells_uuid_def confirmation_def)

lemma traced_read_setup_probe_identity:
  "traced E (read_setup_probe_identity c) (\<lambda>tr r. setup_visit E c tr (ok_of r))"
  unfolding read_setup_probe_identity_def parse_probe_uuid_ascii_def
  by (intro traced_intro)
    (auto simp: setup_visit_def setup_session_def gate_held_def told_uuid_def split: sum.splits)

text \<open>
  Both sessions with a probe in setup mode write nothing but the setup confirmation, at most
  once, succeed exactly when the probe acknowledged it, and end disconnected, except after a
  confirmation that failed: then the connection is left open.
\<close>

theorem setup_sessions_confirm:
  "traced E (acknowledge_setup_probe device) (\<lambda>tr r. setup_session tr (\<exists>u. r = Inr u)) \<and>
   traced E (read_setup_probe_identity c) (\<lambda>tr r. setup_session tr (\<exists>p. r = Inr p))"
  by (intro conjI traced_acknowledge_setup_probe, rule traced_conseq [OF traced_read_setup_probe_identity])
    (auto simp: setup_visit_def ok_of_def split: sum.splits)

text \<open>
  What picking up the candidates leaves: one session with each, in their order and nothing else, and the
  probes are those picked up, in the same order.
\<close>

definition picked_up :: "env \<Rightarrow> probe_candidate list \<Rightarrow> history \<Rightarrow> setup_probe list \<Rightarrow> bool" where
  "picked_up E candidates tr probes \<longleftrightarrow> (\<exists>visits.
     list_all2 (\<lambda>c (part, found). setup_visit E c part found) candidates visits \<and>
     tr = concat (map fst visits) \<and> probes = concat (map (\<lambda>(_, found). case found of None \<Rightarrow> [] | Some p \<Rightarrow> [p]) visits))"

lemma picked_up_none: "picked_up E [] [] []"
  by (simp add: picked_up_def)

lemma picked_up_snoc:
  assumes "picked_up E cs tr probes" "setup_visit E c part found"
  shows "picked_up E (cs @ [c]) (tr @ part) (probes @ (case found of None \<Rightarrow> [] | Some p \<Rightarrow> [p]))"
proof -
  from assms(1) obtain visits where
    "list_all2 (\<lambda>c (part, found). setup_visit E c part found) cs visits"
    "tr = concat (map fst visits)"
    "probes = concat (map (\<lambda>(_, found). case found of None \<Rightarrow> [] | Some p \<Rightarrow> [p]) visits)"
    unfolding picked_up_def by blast
  with assms(2) show ?thesis
    unfolding picked_up_def by (intro exI [of _ "visits @ [(part, found)]"]) (simp add: list_all2_appendI)
qed

lemma traced_pick_up:
  "traced E (for_each cs
      (\<lambda>candidate probes. do {
         r \<leftarrow> read_setup_probe_identity candidate;
         State_Monad.return (case r of Inr probe \<Rightarrow> probes @ [probe] | Inl _ \<Rightarrow> probes)
       }) []) (picked_up E cs)"
proof -
  let ?I = "\<lambda>rest tr probes. \<exists>done. cs = done @ rest \<and> picked_up E done tr probes"
  have "traced E (for_each cs
      (\<lambda>candidate probes. do {
         r \<leftarrow> read_setup_probe_identity candidate;
         State_Monad.return (case r of Inr probe \<Rightarrow> probes @ [probe] | Inl _ \<Rightarrow> probes)
       }) []) (?I [])"
  proof (rule traced_for_each_rest [where I = ?I])
    show "?I cs [] []" using picked_up_none by simp
  next
    fix c rest tr probes assume "?I (c # rest) tr probes"
    then obtain cs' where cs': "cs = (cs' @ [c]) @ rest" "picked_up E cs' tr probes" by auto
    show "traced E (do {
         r \<leftarrow> read_setup_probe_identity c;
         State_Monad.return (case r of Inr probe \<Rightarrow> probes @ [probe] | Inl _ \<Rightarrow> probes)
       }) (\<lambda>tr'. ?I rest (tr @ tr'))"
    proof (rule traced_bind, rule traced_conseq [OF traced_read_setup_probe_identity], rule traced_return)
      fix tr' and r :: "setup_probe res" assume "setup_visit E c tr' (ok_of r)"
      from picked_up_snoc [OF cs'(2) this] cs'(1)
      show "?I rest (tr @ tr' @ []) (case r of Inr probe \<Rightarrow> probes @ [probe] | Inl _ \<Rightarrow> probes)"
        by (intro exI [of _ "cs' @ [c]"]) (cases r; simp)
    qed
  qed
  then show ?thesis by (rule traced_conseq) simp
qed

text \<open>
  C27: picking up setup probes visits every candidate of the scan that was in setup mode, in order, each in a
  session of its own with the candidate's device that writes at most the confirmation, and nothing else. The
  probes reported are exactly those that acknowledged their confirmation, in order, each with the
  name and version its candidate advertised and the uuid it told, or else its address. A failed scan
  reports its error and does nothing.
\<close>

theorem discover_setup_probes_confirmed:
  "traced E discover_setup_probes (\<lambda>tr r. case r of
     Inl e \<Rightarrow> \<exists>advs. tr = [ScanRun advs (Inl e)]
   | Inr probes \<Rightarrow> \<exists>advs rest. tr = ScanRun advs (Inr ()) # rest \<and>
       picked_up E [c \<leftarrow> map (candidate_of advs) (first_heard advs). meta_mode (cand_meta c) = Setup] rest probes)"
  unfolding discover_setup_probes_def
proof (rule traced_bind, rule traced_scan_probe_candidates, simp_all only: sum.case)
  fix advs
  let ?cs = "[c \<leftarrow> map (candidate_of advs) (first_heard advs). meta_mode (cand_meta c) = Setup]"
  show "traced E (do {
      probes \<leftarrow> for_each ?cs
        (\<lambda>candidate probes. do {
           r \<leftarrow> read_setup_probe_identity candidate;
           State_Monad.return (case r of Inr probe \<Rightarrow> probes @ [probe] | Inl _ \<Rightarrow> probes)
         }) [];
      State_Monad.return (Inr probes) })
    (\<lambda>tr' r. case r of
       Inl e \<Rightarrow> \<exists>advs'. [ScanRun advs (Inr ())] @ tr' = [ScanRun advs' (Inl e)]
     | Inr probes \<Rightarrow> \<exists>advs' rest. [ScanRun advs (Inr ())] @ tr' = ScanRun advs' (Inr ()) # rest \<and>
         picked_up E [c \<leftarrow> map (candidate_of advs') (first_heard advs'). meta_mode (cand_meta c) = Setup] rest probes)"
    by (rule traced_bind, rule traced_conseq [OF traced_pick_up], rule traced_return) simp
qed (auto intro: traced_return)

end
