(* ===== verification/Wifi_Prov.thy ===== *)
theory Wifi_Prov
  imports Wifi Ble_Props
begin

text \<open>
  Provisioning over Bluetooth (\<open>src/wifi_prov.rs\<close>): the GATT service a phone writes the Wi-Fi credentials
  to, the pair of pending credentials its callbacks fill, the loop that tries complete pairs, and what
  follows a success: the claim, the pick-up of probes in setup mode, their acknowledgement in the
  database, and the list of them sent back to the phone. Log output is left out.
\<close>

section \<open>Constants\<close>

definition PROV_SERVICE_UUID :: string where
  "PROV_SERVICE_UUID = ''0000ab00-0000-1000-8000-00805f9b34fb''"
definition CHAR_SSID_UUID :: string where
  "CHAR_SSID_UUID = ''0000ab01-0000-1000-8000-00805f9b34fb''"
definition CHAR_PASSWORD_UUID :: string where
  "CHAR_PASSWORD_UUID = ''0000ab02-0000-1000-8000-00805f9b34fb''"
definition CHAR_STATUS_UUID :: string where
  "CHAR_STATUS_UUID = ''0000ab03-0000-1000-8000-00805f9b34fb''"
definition CHAR_PROBES_UUID :: string where
  "CHAR_PROBES_UUID = ''0000ab04-0000-1000-8000-00805f9b34fb''"

definition STATUS_WAITING :: u8 where "STATUS_WAITING = 0"
definition STATUS_WIFI_OK :: u8 where "STATUS_WIFI_OK = 1"
definition STATUS_WIFI_NOK :: u8 where "STATUS_WIFI_NOK = 2"
definition STATUS_CLAIM_OK :: u8 where "STATUS_CLAIM_OK = 3"
definition STATUS_CLAIM_NOK :: u8 where "STATUS_CLAIM_NOK = 4"
definition STATUS_PROBE_SCAN_STARTED :: u8 where "STATUS_PROBE_SCAN_STARTED = 5"
definition STATUS_PROBE_SCAN_DONE :: u8 where "STATUS_PROBE_SCAN_DONE = 6"
definition MAX_PROBE_RESULT_BYTES :: nat where "MAX_PROBE_RESULT_BYTES = 220"
definition DUMMY_AIR_TEMPERATURE_C :: f64 where "DUMMY_AIR_TEMPERATURE_C = 20"
definition DUMMY_AIR_PRESSURE_PA :: f64 where "DUMMY_AIR_PRESSURE_PA = 101325"
definition DUMMY_AIR_HUMIDITY_PCT :: f64 where "DUMMY_AIR_HUMIDITY_PCT = 50"
definition DUMMY_SOIL_TEMPERATURE_C :: f64 where "DUMMY_SOIL_TEMPERATURE_C = 18"
definition DUMMY_SOIL_HUMIDITY_PCT :: f64 where "DUMMY_SOIL_HUMIDITY_PCT = 35"

lemmas status_defs = STATUS_WAITING_def STATUS_WIFI_OK_def STATUS_WIFI_NOK_def STATUS_CLAIM_OK_def
  STATUS_CLAIM_NOK_def STATUS_PROBE_SCAN_STARTED_def STATUS_PROBE_SCAN_DONE_def

lemmas prov_uuids = PROV_SERVICE_UUID_def CHAR_SSID_UUID_def CHAR_PASSWORD_UUID_def
  CHAR_STATUS_UUID_def CHAR_PROBES_UUID_def

section \<open>Pending credentials\<close>

record provisioned_hub =
  ph_credentials :: wifi_credentials
  ph_hub_device_id :: string
  ph_jwt :: string
  ph_setup_probes :: "setup_probe list"

record pending_credentials =
  pw_ssid :: "string option"
  pw_password :: "string option"

definition no_pending :: pending_credentials where
  "no_pending = \<lparr>pw_ssid = None, pw_password = None\<rparr>"

definition set_ssid :: "string \<Rightarrow> pending_credentials \<Rightarrow> pending_credentials" where
  "set_ssid ssid p = p\<lparr>pw_ssid := Some ssid, pw_password := None\<rparr>"

definition set_password :: "string \<Rightarrow> pending_credentials \<Rightarrow> pending_credentials" where
  "set_password password p = p\<lparr>pw_password := Some password\<rparr>"

definition take_complete :: "pending_credentials \<Rightarrow> wifi_credentials option \<times> pending_credentials" where
  "take_complete p =
     (if pw_ssid p = None \<or> pw_password p = None then (None, p)
      else case pw_ssid p of
        None \<Rightarrow> (None, p)
      | Some ssid \<Rightarrow> (case pw_password p of
            None \<Rightarrow> (None, p\<lparr>pw_ssid := None\<rparr>)
          | Some password \<Rightarrow> (Some \<lparr>wc_ssid = ssid, wc_password = password\<rparr>,
              p\<lparr>pw_ssid := None, pw_password := None\<rparr>)))"

datatype pending_state =
  Complete wifi_credentials | WaitingForPassword string | WaitingForSsid | Empty

definition next_pending_credentials_state :: "pending_credentials \<Rightarrow> pending_state \<times> pending_credentials" where
  "next_pending_credentials_state p =
     (case take_complete p of
        (Some credentials, p) \<Rightarrow> (Complete credentials, p)
      | (None, p) \<Rightarrow>
          (case pw_ssid p of
             Some ssid \<Rightarrow> (WaitingForPassword ssid, p)
           | None \<Rightarrow> if pw_password p \<noteq> None then (WaitingForSsid, p) else (Empty, p)))"

section \<open>Writes of the phone\<close>

text \<open>\<open>trim_end_matches\<close> of the NUL character.\<close>

definition trim_end_nul :: "string \<Rightarrow> string" where
  "trim_end_nul s = rev (dropWhile (\<lambda>c. c = CHR 0x00) (rev s))"

text \<open>The two \<open>on_write\<close> callbacks: a write that is not UTF-8 is ignored.\<close>

definition on_write_ssid :: "bytes \<Rightarrow> pending_credentials \<Rightarrow> pending_credentials" where
  "on_write_ssid recv_data p =
     (if from_utf8_ok recv_data then set_ssid (trim_end_nul (str_of_bytes recv_data)) p else p)"

definition on_write_password :: "bytes \<Rightarrow> pending_credentials \<Rightarrow> pending_credentials" where
  "on_write_password recv_data p =
     (if from_utf8_ok recv_data then set_password (trim_end_nul (str_of_bytes recv_data)) p else p)"

definition on_write :: "string \<times> bytes \<Rightarrow> pending_credentials \<Rightarrow> pending_credentials" where
  "on_write w p =
     (if fst w = CHAR_SSID_UUID then on_write_ssid (snd w) p
      else if fst w = CHAR_PASSWORD_UUID then on_write_password (snd w) p
      else p)"

section \<open>The list of probes sent to the phone\<close>

text \<open>\<open>Display\<close> of an unsigned integer.\<close>

fun decimal :: "nat \<Rightarrow> string" where
  "decimal n = (if n < 10 then [char_of (48 + n)] else decimal (n div 10) @ [char_of (48 + n mod 10)])"

declare decimal.simps [simp del]

definition probe_line :: "setup_probe \<Rightarrow> string" where
  "probe_line probe = sp_probe_uuid probe @ ''|'' @ sp_name probe @ ''|'' @
     decimal (unat (sp_version_major probe)) @ ''.'' @ decimal (unat (sp_version_minor probe))"

fun encode_from :: "setup_probe list \<Rightarrow> string \<Rightarrow> string" where
  "encode_from [] encoded = encoded"
| "encode_from (probe # probes) encoded =
     (let line = probe_line probe; separator_len = (if encoded \<noteq> [] then 1 else 0)
      in if length encoded + separator_len + length line > MAX_PROBE_RESULT_BYTES then encoded
         else encode_from probes ((if encoded \<noteq> [] then encoded @ [CHR 0x0A] else encoded) @ line))"

definition encode_setup_probes :: "setup_probe list \<Rightarrow> string" where
  "encode_setup_probes probes = encode_from probes []"

section \<open>Acknowledging probes in the database\<close>

definition dummy_reading :: "setup_probe \<Rightarrow> i64 \<Rightarrow> insert_request" where
  "dummy_reading probe timestamp = \<lparr>ir_node_id = sp_probe_uuid probe,
     ir_air_temperature = DUMMY_AIR_TEMPERATURE_C, ir_air_pressure = DUMMY_AIR_PRESSURE_PA,
     ir_air_humidity = DUMMY_AIR_HUMIDITY_PCT, ir_soil_temperature = DUMMY_SOIL_TEMPERATURE_C,
     ir_soil_humidity = DUMMY_SOIL_HUMIDITY_PCT, ir_timestamp = timestamp\<rparr>"

definition acknowledge_setup_probes_in_database :: "string \<Rightarrow> setup_probe list \<Rightarrow> unit res io" where
  "acknowledge_setup_probes_in_database jwt probes =
     (if probes = [] then State_Monad.return (Inr ())
      else try_io (with_context ''build tokio runtime for setup probe DB acknowledgement'' (ask runtime_at RuntimeBuild)) (\<lambda>_.
        try_io (with_context ''connect to GardenService for setup probe DB acknowledgement'' (connect_with_token jwt)) (\<lambda>client. do {
          failed_acknowledgements \<leftarrow> for_each probes (\<lambda>probe failed_acknowledgements. do {
            timestamp \<leftarrow> get_unix_now_ms;
            r \<leftarrow> send_data client (dummy_reading probe timestamp);
            State_Monad.return (case r of Inr _ \<Rightarrow> failed_acknowledgements
              | Inl e \<Rightarrow> failed_acknowledgements + 1)
          }) 0;
          State_Monad.return (if failed_acknowledgements > 0
            then Inl (SetupAcksFailed failed_acknowledgements (length probes)) else Inr ())
        })))"

section \<open>The GATT server\<close>

definition set_value :: "string \<Rightarrow> bytes \<Rightarrow> unit io" where
  "set_value characteristic v = emit (Gatt (GattValue characteristic v))"

definition set_status :: "u8 \<Rightarrow> unit io" where
  "set_status status = set_value CHAR_STATUS_UUID [status]"

definition notify_status :: "u8 \<Rightarrow> unit io" where
  "notify_status status = do {
     _ \<leftarrow> set_status status;
     emit (Gatt (GattNotify CHAR_STATUS_UUID))
   }"

definition advertise :: "unit res io" where
  "advertise =
     try_io (ask (\<lambda>E h. adv_set_data_at (gatt_of E) h)
       (\<lambda>r. Gatt (AdvSetData ''HarvestHub-Dev'' PROV_SERVICE_UUID r))) (\<lambda>_.
     try_io (ask (\<lambda>E h. adv_start_at (gatt_of E) h) (\<lambda>r. Gatt (AdvStart r))) (\<lambda>_.
     State_Monad.return (Inr ())))"

definition create_characteristics :: "unit io" where
  "create_characteristics = do {
     _ \<leftarrow> emit (Gatt (GattService PROV_SERVICE_UUID));
     _ \<leftarrow> emit (Gatt (GattCharacteristic CHAR_SSID_UUID [PropWrite]));
     _ \<leftarrow> emit (Gatt (GattCharacteristic CHAR_PASSWORD_UUID [PropWrite]));
     _ \<leftarrow> emit (Gatt (GattCharacteristic CHAR_STATUS_UUID [PropRead, PropNotify]));
     _ \<leftarrow> emit (Gatt (GattCharacteristic CHAR_PROBES_UUID [PropRead, PropNotify]));
     _ \<leftarrow> set_status STATUS_WAITING;
     set_value CHAR_PROBES_UUID []
   }"

section \<open>The loop\<close>

text \<open>
  What a turn does with complete credentials: \<open>None\<close> to go on waiting, else the end of \<open>run\<close>, which is a
  value, an error, or a panic.
\<close>

definition finish_provisioning :: "wifi_credentials \<Rightarrow> string \<Rightarrow> string \<Rightarrow> provisioned_hub res rs option io" where
  "finish_provisioning creds hub_device_id jwt = do {
     _ \<leftarrow> notify_status STATUS_CLAIM_OK;
     _ \<leftarrow> emit (SleepMs 2000);
     _ \<leftarrow> notify_status STATUS_PROBE_SCAN_STARTED;
     probes \<leftarrow> discover_setup_probes;
     let setup_probes = (case probes of Inr probes \<Rightarrow> probes | Inl e \<Rightarrow> []);
     _ \<leftarrow> acknowledge_setup_probes_in_database jwt setup_probes;
     _ \<leftarrow> set_value CHAR_PROBES_UUID (bytes_of_str (encode_setup_probes setup_probes));
     _ \<leftarrow> notify_status STATUS_PROBE_SCAN_DONE;
     _ \<leftarrow> emit (SleepMs 1000);
     State_Monad.return (Some (Val (Inr \<lparr>ph_credentials = creds, ph_hub_device_id = hub_device_id,
       ph_jwt = jwt, ph_setup_probes = setup_probes\<rparr>)))
   }"

definition claim_failed :: "provisioned_hub res rs option io" where
  "claim_failed = do {
     _ \<leftarrow> notify_status STATUS_CLAIM_NOK;
     _ \<leftarrow> emit (SleepMs 2000);
     _ \<leftarrow> set_status STATUS_WAITING;
     State_Monad.return None
   }"

definition wifi_ok :: "(string \<times> string) res io \<Rightarrow> wifi_credentials \<Rightarrow> provisioned_hub res rs option io" where
  "wifi_ok claim_hub creds = do {
     _ \<leftarrow> notify_status STATUS_WIFI_OK;
     _ \<leftarrow> emit (SleepMs 2000);
     _ \<leftarrow> nvs_save creds;
     claimed \<leftarrow> claim_hub;
     case claimed of
       Inr (hub_device_id, jwt) \<Rightarrow> finish_provisioning creds hub_device_id jwt
     | Inl e \<Rightarrow> claim_failed
   }"

definition wifi_nok :: "provisioned_hub res rs option io" where
  "wifi_nok = do {
     _ \<leftarrow> notify_status STATUS_WIFI_NOK;
     _ \<leftarrow> emit (SleepMs 2000);
     _ \<leftarrow> set_status STATUS_WAITING;
     adv \<leftarrow> advertise;
     State_Monad.return (case adv of Inl e \<Rightarrow> Some (Val (Inl e)) | Inr _ \<Rightarrow> None)
   }"

definition try_credentials ::
  "(string \<times> string) res io \<Rightarrow> wifi_credentials \<Rightarrow> provisioned_hub res rs option io" where
  "try_credentials claim_hub creds = do {
     connected \<leftarrow> connect_for_provisioning (wc_ssid creds) (wc_password creds);
     case connected of
       Panic \<Rightarrow> State_Monad.return (Some Panic)
     | Val (Inr _) \<Rightarrow> wifi_ok claim_hub creds
     | Val (Inl e) \<Rightarrow> wifi_nok
   }"

text \<open>
  The first \<open>n\<close> turns of the loop, which ends when provisioning does; \<open>None\<close> is not ended yet. The
  writes of the phone since the last turn are delivered when the turn looks at the pending pair, which is
  when they first matter: the callbacks change nothing else.
\<close>

primrec prov_turns ::
  "(string \<times> string) res io \<Rightarrow> nat \<Rightarrow> pending_credentials \<Rightarrow> provisioned_hub res rs option io" where
  "prov_turns claim_hub 0 p = State_Monad.return None"
| "prov_turns claim_hub (Suc n) p = do {
     _ \<leftarrow> emit (SleepMs 500);
     writes \<leftarrow> ask (\<lambda>E h. client_writes_at (gatt_of E) h) (\<lambda>ws. Gatt (ClientWrites ws));
     let (state, p) = next_pending_credentials_state (fold on_write writes p);
     ended \<leftarrow> (case state of
         Complete creds \<Rightarrow> try_credentials claim_hub creds
       | WaitingForPassword ssid \<Rightarrow> State_Monad.return None
       | WaitingForSsid \<Rightarrow> State_Monad.return None
       | Empty \<Rightarrow> State_Monad.return None);
     case ended of
       Some r \<Rightarrow> State_Monad.return (Some r)
     | None \<Rightarrow> prov_turns claim_hub n p
   }"

definition wifi_prov_run :: "(string \<times> string) res io \<Rightarrow> nat \<Rightarrow> provisioned_hub res rs option io" where
  "wifi_prov_run claim_hub n = do {
     _ \<leftarrow> create_characteristics;
     adv \<leftarrow> advertise;
     case adv of
       Inl e \<Rightarrow> State_Monad.return (Some (Val (Inl e)))
     | Inr _ \<Rightarrow> prov_turns claim_hub n no_pending
   }"

end
