(* ===== verification/Prov_Props.thy ===== *)
theory Prov_Props
  imports Wifi_Prov
begin

text \<open>
  Properties of provisioning: the list of probes sent to the phone fits and has whole lines; the pending
  pair is what the phone means (\<open>paired\<close>), and only such pairs are tried (\<open>try_step\<close>); the status
  follows its protocol (\<open>status_step\<close>); and provisioning ends when everything works (\<open>healthy\<close>).
\<close>

section \<open>The list of probes\<close>

fun unlines_sep :: "string list \<Rightarrow> string" where
  "unlines_sep [] = []"
| "unlines_sep [l] = l"
| "unlines_sep (l # ls) = l @ CHR 0x0A # unlines_sep ls"

lemma unlines_sep_snoc: "ls \<noteq> [] \<Longrightarrow> unlines_sep (ls @ [l]) = unlines_sep ls @ CHR 0x0A # l"
  by (induction ls rule: unlines_sep.induct) auto

lemma probe_line_nonempty [simp]: "probe_line probe \<noteq> []"
  by (simp add: probe_line_def)

lemma unlines_probes_empty [simp]: "unlines_sep (map probe_line ps) = [] \<longleftrightarrow> ps = []"
  by (induction ps rule: induct_list012) simp_all

lemma unlines_probes_snoc:
  "unlines_sep (map probe_line (ps @ [p])) =
     (if ps \<noteq> [] then unlines_sep (map probe_line ps) @ [CHR 0x0A] else unlines_sep (map probe_line ps)) @ probe_line p"
  by (simp add: unlines_sep_snoc)

definition encodes :: "setup_probe list \<Rightarrow> string \<Rightarrow> bool" where
  "encodes probes text \<longleftrightarrow> (\<exists>k. text = unlines_sep (map probe_line (take k probes)) \<and>
     (k \<ge> length probes \<or> MAX_PROBE_RESULT_BYTES < length (unlines_sep (map probe_line (take (Suc k) probes)))))"

lemma encode_from_encodes:
  "length (unlines_sep (map probe_line sent)) \<le> MAX_PROBE_RESULT_BYTES \<Longrightarrow>
   (\<exists>k. encode_from probes (unlines_sep (map probe_line sent)) = unlines_sep (map probe_line (sent @ take k probes)) \<and>
     (k \<ge> length probes \<or> MAX_PROBE_RESULT_BYTES < length (unlines_sep (map probe_line (sent @ take (Suc k) probes))))) \<and>
   length (encode_from probes (unlines_sep (map probe_line sent))) \<le> MAX_PROBE_RESULT_BYTES"
proof (induction probes arbitrary: sent)
  case (Cons p ps)
  let ?t = "unlines_sep (map probe_line sent)"
  let ?t' = "unlines_sep (map probe_line (sent @ [p]))"
  have len: "length ?t' = length ?t + (if ?t \<noteq> [] then 1 else 0) + length (probe_line p)"
    unfolding unlines_probes_snoc by simp
  have next_text: "(if ?t \<noteq> [] then ?t @ [CHR 0x0A] else ?t) @ probe_line p = ?t'"
    unfolding unlines_probes_snoc by simp
  show ?case
  proof (cases "length ?t' > MAX_PROBE_RESULT_BYTES")
    case True
    then show ?thesis using Cons.prems len
      by (intro conjI exI [of _ 0]) (simp_all add: Let_def)
  next
    case False
    then have step: "encode_from (p # ps) ?t = encode_from ps ?t'"
      using len next_text by (simp add: Let_def)
    from False have "length ?t' \<le> MAX_PROBE_RESULT_BYTES" by simp
    from Cons.IH [OF this] obtain k where
      "encode_from ps ?t' = unlines_sep (map probe_line ((sent @ [p]) @ take k ps))"
      "k \<ge> length ps \<or> MAX_PROBE_RESULT_BYTES < length (unlines_sep (map probe_line ((sent @ [p]) @ take (Suc k) ps)))"
      "length (encode_from ps ?t') \<le> MAX_PROBE_RESULT_BYTES" by blast
    then show ?thesis unfolding step by (intro conjI exI [of _ "Suc k"]) simp_all
  qed
qed simp

text \<open>
  C32: the list of probes sent to the phone consists of whole lines, those of the longest start of the
  list that fits into 220 bytes.
\<close>

theorem encode_setup_probes_fits:
  "length (encode_setup_probes probes) \<le> 220 \<and> encodes probes (encode_setup_probes probes)"
  using encode_from_encodes [of "[]" probes]
  by (auto simp: encode_setup_probes_def encodes_def MAX_PROBE_RESULT_BYTES_def)

section \<open>The pending pair\<close>

text \<open>What the writes of the phone mean to the callbacks.\<close>

datatype input = GotSsid string | GotPassword string

definition received :: "string \<times> bytes \<Rightarrow> input list" where
  "received w =
     (if \<not> from_utf8_ok (snd w) then []
      else if fst w = CHAR_SSID_UUID then [GotSsid (trim_end_nul (str_of_bytes (snd w)))]
      else if fst w = CHAR_PASSWORD_UUID then [GotPassword (trim_end_nul (str_of_bytes (snd w)))]
      else [])"

fun take_input :: "input \<Rightarrow> pending_credentials \<Rightarrow> pending_credentials" where
  "take_input (GotSsid s) = set_ssid s"
| "take_input (GotPassword s) = set_password s"

lemma on_write_received: "on_write w p = fold take_input (received w) p"
  by (simp add: on_write_def received_def on_write_ssid_def on_write_password_def)

lemma on_writes_received: "fold on_write ws p = fold take_input (concat (map received ws)) p"
  by (induction ws arbitrary: p) (simp_all add: on_write_received)

text \<open>
  The pair the phone means: its last SSID, and its last password, written after that. Pending
  credentials hold it, as far as it is complete.
\<close>

fun is_ssid :: "input \<Rightarrow> bool" where
  "is_ssid (GotSsid _) = True" | "is_ssid (GotPassword _) = False"

definition paired :: "input list \<Rightarrow> wifi_credentials \<Rightarrow> bool" where
  "paired said creds \<longleftrightarrow> (\<exists>a b. said = a @ GotSsid (wc_ssid creds) # b @ [GotPassword (wc_password creds)] \<and>
     list_all (\<lambda>i. \<not> is_ssid i) b)"

definition pending_of :: "input list \<Rightarrow> pending_credentials \<Rightarrow> bool" where
  "pending_of said p \<longleftrightarrow> (\<forall>s. pw_ssid p = Some s \<longrightarrow>
     (case pw_password p of
        None \<Rightarrow> \<exists>a b. said = a @ GotSsid s # b \<and> list_all (\<lambda>i. \<not> is_ssid i) b
      | Some q \<Rightarrow> paired said \<lparr>wc_ssid = s, wc_password = q\<rparr>))"

lemma pending_of_none [simp]: "pw_ssid p = None \<Longrightarrow> pending_of said p"
  by (simp add: pending_of_def)

lemma pending_of_input: "pending_of said p \<Longrightarrow> pending_of (said @ [i]) (take_input i p)"
proof (cases i)
  case (GotSsid s)
  have "\<exists>a b. said @ [GotSsid s] = a @ GotSsid s # b \<and> list_all (\<lambda>i. \<not> is_ssid i) b"
    by (intro exI [of _ said] exI [of _ "[]"]) simp
  with GotSsid show ?thesis by (simp add: pending_of_def set_ssid_def)
next
  case (GotPassword q)
  assume inv: "pending_of said p"
  show ?thesis
  proof (cases "pw_ssid p")
    case (Some s)
    have "\<exists>a b. said = a @ GotSsid s # b \<and> list_all (\<lambda>i. \<not> is_ssid i) b"
    proof (cases "pw_password p")
      case None
      with inv Some show ?thesis by (simp add: pending_of_def)
    next
      case (Some q')
      with inv \<open>pw_ssid p = Some s\<close> obtain a b where
        "said = a @ GotSsid s # b @ [GotPassword q']" "list_all (\<lambda>i. \<not> is_ssid i) b"
        by (auto simp: pending_of_def paired_def)
      then show ?thesis by (intro exI [of _ a] exI [of _ "b @ [GotPassword q']"]) simp
    qed
    then obtain a b where "said = a @ GotSsid s # b" "list_all (\<lambda>i. \<not> is_ssid i) b" by blast
    then have "paired (said @ [i]) \<lparr>wc_ssid = s, wc_password = q\<rparr>"
      unfolding paired_def GotPassword by (intro exI [of _ a] exI [of _ b]) simp
    with Some GotPassword show ?thesis by (simp add: pending_of_def set_password_def)
  qed (simp add: GotPassword set_password_def)
qed

lemma pending_of_inputs: "pending_of said p \<Longrightarrow> pending_of (said @ is) (fold take_input is p)"
proof (induction "is" arbitrary: said p)
  case (Cons i "is")
  from Cons.IH [OF pending_of_input [OF Cons.prems, of i]] show ?case by simp
qed simp

lemma paired_later: "paired said c \<Longrightarrow> paired (older @ said) c"
  unfolding paired_def by (metis append.assoc)

text \<open>Looking at the pair takes it when it is complete.\<close>

lemma next_pending_complete:
  assumes "pending_of said p" "next_pending_credentials_state p = (state, p')"
  shows "case state of Complete creds \<Rightarrow> paired said creds \<and> p' = no_pending | _ \<Rightarrow> p' = p"
proof (cases "pw_ssid p")
  case None
  with assms(2) show ?thesis
    by (cases "pw_password p") (auto simp: next_pending_credentials_state_def take_complete_def)
next
  case (Some s)
  with assms show ?thesis
    by (cases "pw_password p")
      (auto simp: next_pending_credentials_state_def take_complete_def pending_of_def no_pending_def)
qed


section \<open>What is tried\<close>

text \<open>
  One event, with what the phone has said since the last pair was tried, and that pair: a network is
  configured only with the pair the phone means.
\<close>

type_synonym tries = "input list \<times> wifi_credentials option"

fun try_step :: "event \<Rightarrow> tries \<Rightarrow> tries option" where
  "try_step (Gatt (ClientWrites ws)) (said, tried) = Some (said @ concat (map received ws), tried)"
| "try_step (Wifi (WifiSetConfiguration ssid password _)) (said, tried) =
     (let creds = \<lparr>wc_ssid = ssid, wc_password = password\<rparr> in
      if paired said creds then Some ([], Some creds) else None)"
| "try_step _ state = Some state"

text \<open>Events that do not matter here.\<close>

fun inert :: "event \<Rightarrow> bool" where
  "inert (Gatt _) = False"
| "inert (Wifi _) = False"
| "inert _ = True"

definition inert_tr :: "history \<Rightarrow> bool" where
  "inert_tr tr \<longleftrightarrow> list_all inert tr"

lemma inert_tr_simps [simp]:
  "inert_tr []" "inert_tr (e # tr) \<longleftrightarrow> inert e \<and> inert_tr tr" "inert_tr (a @ b) \<longleftrightarrow> inert_tr a \<and> inert_tr b"
  by (simp_all add: inert_tr_def)

interpretation inert: trace_monoid inert_tr
  by unfold_locales simp_all

lemma waited_inert: "waited n tr \<Longrightarrow> inert_tr tr"
  by (induction rule: waited.induct) auto

lemma read_str_inert:
  "(\<And>tr r. inert_tr tr \<Longrightarrow> Q tr r) \<Longrightarrow> traced E (read_str ns key) Q"
  unfolding read_str_def flash_calls by (intro traced_intro) auto

lemma provision_inert: "traced E (provision_hub build) (\<lambda>tr _. inert_tr tr)"
  supply read_str_inert [traced_intro]
  unfolding provision_hub_def load_or_generate_creds_def seed_jwt_from_env_def write_hub_jwt_def
    read_hub_jwt_def claim_hub_token_def flash_calls Let_def
  by (auto intro!: traced_intro split: sum.splits option.splits)


lemma sntp_inert: "traced E get_sync_sntp (\<lambda>tr _. inert_tr tr)"
  by (rule traced_conseq [OF traced_get_sync_sntp])
    (auto simp: synced_after_def waited_inert split: sum.splits)

lemma claim_inert: "traced E (claim_hub_after_time_sync build) (\<lambda>tr _. inert_tr tr)"
  unfolding claim_hub_after_time_sync_def
  by (rule traced_try, rule traced_conseq [OF sntp_inert])
    (auto intro!: traced_conseq [OF provision_inert] split: sum.splits)

lemma save_inert: "traced E (nvs_save creds) (\<lambda>tr _. inert_tr tr)"
  unfolding nvs_save_def open_nvs_def flash_calls
  by (auto intro!: traced_intro split: sum.splits)

lemma pick_up_inert: "traced E (read_setup_probe_identity c) (\<lambda>tr _. inert_tr tr)"
  unfolding read_setup_probe_identity_def
  by (intro traced_intro) (auto simp: confirmation_def)

lemma discover_inert: "traced E discover_setup_probes (\<lambda>tr _. inert_tr tr)"
  unfolding discover_setup_probes_def
  by (intro traced_intro traced_scan_probe_candidates)
    (auto intro!: traced_intro traced_conseq [OF inert.stateless.loop] traced_conseq [OF pick_up_inert])

lemma acknowledge_db_inert:
  "traced E (acknowledge_setup_probes_in_database jwt probes) (\<lambda>tr _. inert_tr tr)"
proof -
  have loop: "traced E (for_each probes (\<lambda>probe failed. do {
            timestamp \<leftarrow> get_unix_now_ms;
            r \<leftarrow> send_data client (dummy_reading probe timestamp);
            State_Monad.return (case r of Inr _ \<Rightarrow> failed | Inl e \<Rightarrow> failed + 1)
          }) (n :: nat)) (\<lambda>tr _. inert_tr tr)" for client n
    by (rule inert.stateless.loop)
      (auto intro!: traced_intro traced_unary simp: send_data_def split: sum.splits)
  show ?thesis
    unfolding acknowledge_setup_probes_in_database_def
    by (auto intro!: traced_intro traced_connect_with_token traced_conseq [OF loop]
        simp: context_res_def split: sum.splits)
qed

lemma pick_up_no_flash: "traced E (read_setup_probe_identity c) (\<lambda>tr _. no_flash tr)"
  unfolding read_setup_probe_identity_def
  by (intro traced_intro) (auto simp: confirmation_def)

lemma discover_no_flash: "traced E discover_setup_probes (\<lambda>tr _. no_flash tr)"
  unfolding discover_setup_probes_def
  by (intro traced_intro traced_scan_probe_candidates)
    (auto intro!: traced_intro traced_conseq [OF no_flash.stateless.loop] traced_conseq [OF pick_up_no_flash])

lemma acknowledge_db_no_flash:
  "traced E (acknowledge_setup_probes_in_database jwt probes) (\<lambda>tr _. no_flash tr)"
proof -
  have loop: "traced E (for_each probes (\<lambda>probe failed. do {
            timestamp \<leftarrow> get_unix_now_ms;
            r \<leftarrow> send_data client (dummy_reading probe timestamp);
            State_Monad.return (case r of Inr _ \<Rightarrow> failed | Inl e \<Rightarrow> failed + 1)
          }) (n :: nat)) (\<lambda>tr _. no_flash tr)" for client n
    by (rule no_flash.stateless.loop)
      (auto intro!: traced_intro traced_unary simp: send_data_def split: sum.splits)
  show ?thesis
    unfolding acknowledge_setup_probes_in_database_def
    by (auto intro!: traced_intro traced_connect_with_token traced_conseq [OF loop]
        simp: context_res_def split: sum.splits)
qed

section \<open>The hub's token\<close>

text \<open>
  The token that the last access to the flash, from opening it on, found under its key or stored there.
\<close>

fun flash_token :: "flash_event \<Rightarrow> string option \<Rightarrow> string option" where
  "flash_token (NvsOpen _ _ _) token = None"
| "flash_token (NvsGetStr ns key _ r) token =
     (if (ns, key) = jwt_at then (case r of Inl _ \<Rightarrow> None | Inr v \<Rightarrow> v) else token)"
| "flash_token (NvsSetStr ns key v r) token =
     (if (ns, key) = jwt_at then (case r of Inl _ \<Rightarrow> None | Inr _ \<Rightarrow> Some v) else token)"
| "flash_token _ token = token"

fun event_token :: "event \<Rightarrow> string option \<Rightarrow> string option" where
  "event_token (Flash f) token = flash_token f token"
| "event_token _ token = token"

lemma no_flash_token: "no_flash tr \<Longrightarrow> fold event_token tr token = token"
proof (induction tr)
  case (Cons e tr)
  then show ?case by (cases e) simp_all
qed simp

text \<open>The claim returns the token that is then in hand this way, and fails when there is none.\<close>

definition tells_token :: "history \<Rightarrow> (string \<times> string) res \<Rightarrow> bool" where
  "tells_token tr r \<longleftrightarrow> inert_tr tr \<and>
     fold event_token tr None = (case r of Inl _ \<Rightarrow> None | Inr (_, token) \<Rightarrow> Some token)"

lemma load_token: "traced E (load_or_generate_creds build) (\<lambda>tr _. fold event_token tr None = None)"
  unfolding load_or_generate_creds_def read_str_def flash_calls Let_def
  by (auto intro!: traced_intro split: sum.splits option.splits)

lemma read_token: "traced E read_hub_jwt
    (\<lambda>tr r. fold event_token tr None = (case r of Inl _ \<Rightarrow> None | Inr v \<Rightarrow> v))"
  unfolding read_hub_jwt_def read_str_def flash_calls
  by (auto intro!: traced_intro split: sum.splits option.splits)

lemma write_token: "traced E (write_hub_jwt token)
    (\<lambda>tr r. \<forall>before. fold event_token tr before = (case r of Inl _ \<Rightarrow> None | Inr _ \<Rightarrow> Some token))"
  unfolding write_hub_jwt_def flash_calls
  by (auto intro!: traced_intro split: sum.splits)

lemma seed_token: "traced E (seed_jwt_from_env token)
    (\<lambda>tr r. fold event_token tr None = (case r of Inl _ \<Rightarrow> None | Inr _ \<Rightarrow> Some token))"
  unfolding seed_jwt_from_env_def
  by (rule traced_try, rule traced_conseq [OF read_token])
    (auto intro!: traced_intro traced_conseq [OF write_token] split: sum.splits)

lemma provision_token: "traced E (provision_hub build)
    (\<lambda>tr r. fold event_token tr None = (case r of Inl _ \<Rightarrow> None | Inr (_, token) \<Rightarrow> Some token))"
  unfolding provision_hub_def claim_hub_token_def
  by (rule traced_try, rule traced_conseq [OF load_token])
    (auto intro!: traced_intro traced_conseq [OF read_token] traced_conseq [OF write_token]
      traced_conseq [OF seed_token] split: sum.splits option.splits claim_failure.splits)

lemma claim_tells_token: "traced E (claim_hub_after_time_sync build) tells_token"
proof -
  have "traced E (claim_hub_after_time_sync build)
      (\<lambda>tr r. fold event_token tr None = (case r of Inl _ \<Rightarrow> None | Inr (_, token) \<Rightarrow> Some token))"
    unfolding claim_hub_after_time_sync_def
    by (rule traced_try, rule traced_conseq [OF sntp_no_flash])
      (auto simp: no_flash_token intro!: traced_conseq [OF provision_token] split: sum.splits)
  from traced_conj [OF claim_inert this] show ?thesis
    unfolding tells_token_def .
qed

lemma save_token: "traced E (nvs_save creds) (\<lambda>tr _. fold event_token tr None = None)"
  unfolding nvs_save_def open_nvs_def flash_calls
  by (auto intro!: traced_intro split: sum.splits)

section \<open>The status shown to the phone\<close>

text \<open>
  One event, with the status shown, whether the last attempt got an address, and the token in hand since
  then: the status follows the protocol, and says of the Wi-Fi and of the claim what is the case.
\<close>

type_synonym shown = "u8 option \<times> bool \<times> string option"

definition status_next :: "u8 option \<Rightarrow> u8 \<Rightarrow> bool \<Rightarrow> string option \<Rightarrow> bool" where
  "status_next shown s up token \<longleftrightarrow>
     (case shown of
        None \<Rightarrow> s = STATUS_WAITING
      | Some t \<Rightarrow>
          t = STATUS_WAITING \<and> s = (if up then STATUS_WIFI_OK else STATUS_WIFI_NOK) \<or>
          t = STATUS_WIFI_NOK \<and> s = STATUS_WAITING \<or>
          t = STATUS_WIFI_OK \<and> s = (if token \<noteq> None then STATUS_CLAIM_OK else STATUS_CLAIM_NOK) \<or>
          t = STATUS_CLAIM_NOK \<and> s = STATUS_WAITING \<or>
          t = STATUS_CLAIM_OK \<and> s = STATUS_PROBE_SCAN_STARTED \<or>
          t = STATUS_PROBE_SCAN_STARTED \<and> s = STATUS_PROBE_SCAN_DONE)"

fun status_step :: "event \<Rightarrow> shown \<Rightarrow> shown option" where
  "status_step (Gatt (GattValue ch v)) (shown, up, token) =
     (if ch = CHAR_STATUS_UUID then
        (case v of
           [s] \<Rightarrow>
             if \<not> status_next shown s up token then None
             else if s = STATUS_WAITING then Some (Some s, False, None)
             else Some (Some s, up, token)
         | _ \<Rightarrow> None)
      else Some (shown, up, token))"
| "status_step (Wifi (WifiIpInfo (Inr _))) (shown, up, token) = Some (shown, True, token)"
| "status_step (Flash f) (shown, up, token) = Some (shown, up, flash_token f token)"
| "status_step _ state = Some state"

lemma inert_steps:
  "inert_tr tr \<Longrightarrow> run_steps status_step tr (shown, up, token) = Some (shown, up, fold event_token tr token)"
  "inert_tr tr \<Longrightarrow> run_steps try_step tr said = Some said"
proof (induction tr arbitrary: token)
  case (Cons e tr)
  { case 1 with Cons show ?case by (cases e) simp_all
  next case 2 with Cons show ?case by (cases e) simp_all }
qed simp_all

text \<open>What the one attempt to connect means for both.\<close>

lemma connect_steps:
  assumes "paired said \<lparr>wc_ssid = ssid, wc_password = password\<rparr>"
  shows "traced E (connect_for_provisioning ssid password) (\<lambda>tr r. r \<noteq> Panic \<and>
    run_steps status_step tr (shown, False, token) = Some (shown, r = Val (Inr ()), token) \<and>
    (\<exists>after. run_steps try_step tr (said, tried) = Some after \<and> after \<in> {(said, tried), ([], Some \<lparr>wc_ssid = ssid, wc_password = password\<rparr>)} \<and>
      (r = Val (Inr ()) \<longrightarrow> snd after = Some \<lparr>wc_ssid = ssid, wc_password = password\<rparr>)))"
proof -
  have "[1..<Suc (unat (1::u8))] = [1]" by simp
  with assms show ?thesis
    unfolding connect_for_provisioning_def connect_with_attempts_def Let_def
    by (auto intro!: traced_intro split: sum.splits)
qed


text \<open>Both automata at once: from the state before to the state after.\<close>

definition walks :: "history \<Rightarrow> shown \<times> tries \<Rightarrow> shown \<times> tries \<Rightarrow> bool" where
  "walks tr x y \<longleftrightarrow> run_steps status_step tr (fst x) = Some (fst y) \<and> run_steps try_step tr (snd x) = Some (snd y)"

lemma walks_append: "walks a x y \<Longrightarrow> walks b y z \<Longrightarrow> walks (a @ b) x z"
  by (simp add: walks_def run_steps_append)

lemma walks_Nil [simp]: "walks [] x x"
  by (simp add: walks_def)

text \<open>Postconditions of programs in terms of \<open>walks\<close>: a step to a known state, and the end.\<close>

lemma traced_walks_step:
  assumes "traced E m (\<lambda>tr _. walks tr x y)"
    and "\<And>r. traced E (f r) (\<lambda>tr r. \<exists>z. walks tr y z \<and> Q z r)"
  shows "traced E (m \<bind> f) (\<lambda>tr r. \<exists>z. walks tr x z \<and> Q z r)"
proof (rule traced_bind, rule traced_conseq [OF assms(1)])
  fix tr r assume "walks tr x y"
  with assms(2) [of r] show "traced E (f r) (\<lambda>tr' r'. \<exists>z. walks (tr @ tr') x z \<and> Q z r')"
    by (rule_tac traced_conseq) (blast intro: walks_append)+
qed

lemma traced_walks_bind:
  assumes "traced E m (\<lambda>tr r. \<exists>y. walks tr x y \<and> P y r)"
    and "\<And>y r. P y r \<Longrightarrow> traced E (f r) (\<lambda>tr r. \<exists>z. walks tr y z \<and> Q z r)"
  shows "traced E (m \<bind> f) (\<lambda>tr r. \<exists>z. walks tr x z \<and> Q z r)"
proof (rule traced_bind, rule traced_conseq [OF assms(1)], elim exE conjE)
  fix tr r y assume w: "walks tr x y" and "P y r"
  from assms(2) [OF \<open>P y r\<close>] show "traced E (f r) (\<lambda>tr' r'. \<exists>z. walks (tr @ tr') x z \<and> Q z r')"
    by (rule traced_conseq) (elim exE conjE, intro exI conjI, rule walks_append [OF w], assumption+)
qed

lemma traced_walks_return: "Q x r \<Longrightarrow> traced E (State_Monad.return r) (\<lambda>tr r. \<exists>y. walks tr x y \<and> Q y r)"
  by (rule traced_return) (blast intro: walks_Nil)

lemma traced_walks_inert:
  assumes "traced E m (\<lambda>tr _. inert_tr tr)" "traced E m (\<lambda>tr _. fold event_token tr token = token)"
  shows "traced E m (\<lambda>tr _. walks tr ((shown, up, token), said) ((shown, up, token), said))"
  by (rule traced_conseq [OF traced_conj [OF assms]]) (simp add: walks_def inert_steps)

lemma traced_walks_aside:
  assumes "traced E m (\<lambda>tr _. inert_tr tr)" "traced E m (\<lambda>tr _. no_flash tr)"
  shows "traced E m (\<lambda>tr _. walks tr ((shown, up, token), said) ((shown, up, token), said))"
  by (rule traced_walks_inert [OF assms(1)], rule traced_conseq [OF assms(2)]) (rule no_flash_token)

lemma traced_walks_sleep:
  "traced E (emit (SleepMs n)) (\<lambda>tr _. walks tr ((shown, up, token), said) ((shown, up, token), said))"
  by (rule traced_walks_aside; rule traced_emit) simp_all

lemma traced_walks_status:
  "status_next shown s up token \<Longrightarrow> s \<noteq> STATUS_WAITING \<Longrightarrow> traced E (notify_status s)
     (\<lambda>tr _. walks tr ((shown, up, token), said) ((Some s, up, token), said))"
  unfolding notify_status_def set_status_def set_value_def by (intro traced_intro) (simp add: walks_def)

lemma traced_walks_waiting:
  "status_next shown STATUS_WAITING up token \<Longrightarrow> traced E (set_status STATUS_WAITING)
     (\<lambda>tr _. walks tr ((shown, up, token), said) ((Some STATUS_WAITING, False, None), said))"
  unfolding set_status_def set_value_def by (rule traced_emit) (simp add: walks_def)

lemma other_characteristics [simp]: "CHAR_PROBES_UUID \<noteq> CHAR_STATUS_UUID" "CHAR_SSID_UUID \<noteq> CHAR_PASSWORD_UUID"
  by (simp_all add: prov_uuids)

lemma traced_walks_probes:
  "traced E (set_value CHAR_PROBES_UUID v) (\<lambda>tr _. walks tr ((shown, up, token), said) ((shown, up, token), said))"
  unfolding set_value_def by (rule traced_emit) (simp add: walks_def)

lemma traced_walks_advertise:
  "traced E advertise (\<lambda>tr _. walks tr ((shown, up, token), said) ((shown, up, token), said))"
  unfolding advertise_def by (intro traced_intro) (auto simp: walks_def split: sum.splits intro!: traced_intro)

lemma traced_walks_connect:
  assumes "paired said creds"
  shows "traced E (connect_for_provisioning (wc_ssid creds) (wc_password creds)) (\<lambda>tr r. r \<noteq> Panic \<and>
    (\<exists>after. walks tr ((shown, False, token), (said, tried)) ((shown, r = Val (Inr ()), token), after) \<and>
      (r = Val (Inr ()) \<longrightarrow> snd after = Some creds)))"
proof -
  have same: "\<lparr>wc_ssid = wc_ssid creds, wc_password = wc_password creds\<rparr> = creds" by simp
  from assms have pair: "paired said \<lparr>wc_ssid = wc_ssid creds, wc_password = wc_password creds\<rparr>" unfolding same .
  show ?thesis
    by (rule traced_conseq [OF connect_steps [OF pair, where E = E and shown = shown and token = token and tried = tried, unfolded same]])
      (auto simp: walks_def)
qed

lemma traced_walks_finish:
  "traced E (finish_provisioning creds d jwt) (\<lambda>tr r. \<exists>y. walks tr ((Some STATUS_WIFI_OK, True, Some jwt), said) y \<and>
     y = ((Some STATUS_PROBE_SCAN_DONE, True, Some jwt), said) \<and>
     (\<exists>probes. r = Some (Val (Inr \<lparr>ph_credentials = creds, ph_hub_device_id = d, ph_jwt = jwt, ph_setup_probes = probes\<rparr>))))"
  unfolding finish_provisioning_def Let_def
  by (intro traced_walks_step [OF traced_walks_status] traced_walks_step [OF traced_walks_sleep]
      traced_walks_step [OF traced_walks_aside [OF discover_inert discover_no_flash]]
      traced_walks_step [OF traced_walks_aside [OF acknowledge_db_inert acknowledge_db_no_flash]]
      traced_walks_step [OF traced_walks_probes] traced_walks_return)
    (simp_all add: status_next_def status_defs)


text \<open>One attempt: it goes back to waiting, or ends with a value or an error.\<close>

definition turn_result :: "shown \<times> tries \<Rightarrow> provisioned_hub res rs option \<Rightarrow> bool" where
  "turn_result y r \<longleftrightarrow> (case r of
      None \<Rightarrow> fst y = (Some STATUS_WAITING, False, None)
    | Some Panic \<Rightarrow> False
    | Some (Val (Inl e)) \<Rightarrow> fst y = (Some STATUS_WAITING, False, None)
    | Some (Val (Inr hub)) \<Rightarrow> fst y = (Some STATUS_PROBE_SCAN_DONE, True, Some (ph_jwt hub)) \<and>
        snd (snd y) = Some (ph_credentials hub))"

lemma traced_walks_claim_failed:
  "traced E claim_failed (\<lambda>tr r. \<exists>y. walks tr ((Some STATUS_WIFI_OK, True, None), said) y \<and> turn_result y r)"
  unfolding claim_failed_def
  by (intro traced_walks_step [OF traced_walks_status] traced_walks_step [OF traced_walks_sleep]
      traced_walks_step [OF traced_walks_waiting] traced_walks_return)
    (simp_all add: status_next_def status_defs turn_result_def)

lemma traced_walks_wifi_ok:
  assumes "traced E claim_hub tells_token" "snd said = Some creds"
  shows "traced E (wifi_ok claim_hub creds) (\<lambda>tr r. \<exists>y. walks tr ((Some STATUS_WAITING, True, None), said) y \<and> turn_result y r)"
  unfolding wifi_ok_def
proof (intro traced_walks_step [OF traced_walks_status] traced_walks_step [OF traced_walks_sleep]
    traced_walks_step [OF traced_walks_inert [OF save_inert save_token]], goal_cases)
  case 3
  let ?y = "\<lambda>r. ((Some STATUS_WIFI_OK, True, case r of Inl _ \<Rightarrow> None | Inr (_, token) \<Rightarrow> Some token), said)"
  have claimed: "traced E claim_hub (\<lambda>tr r. \<exists>y. walks tr ((Some STATUS_WIFI_OK, True, None), said) y \<and> y = ?y r)"
    by (rule traced_conseq [OF assms(1)]) (simp add: tells_token_def walks_def inert_steps)
  have finish: "traced E (finish_provisioning creds d jwt)
      (\<lambda>tr r. \<exists>y. walks tr ((Some STATUS_WIFI_OK, True, Some jwt), said) y \<and> turn_result y r)" for d jwt
    by (rule traced_conseq [OF traced_walks_finish [where said = said]]) (use assms(2) in \<open>fastforce simp: turn_result_def\<close>)
  show ?case
  proof (rule traced_walks_bind [OF claimed])
    fix y and r :: "(string \<times> string) res" assume "y = ?y r"
    with finish traced_walks_claim_failed
    show "traced E (case r of Inl e \<Rightarrow> claim_failed
        | Inr (hub_device_id, jwt) \<Rightarrow> finish_provisioning creds hub_device_id jwt)
      (\<lambda>tr r. \<exists>z. walks tr y z \<and> turn_result z r)"
      by (cases r) (auto split: prod.splits)
  qed
qed (simp_all add: status_next_def status_defs)

lemma traced_walks_wifi_nok:
  "traced E wifi_nok (\<lambda>tr r. \<exists>y. walks tr ((Some STATUS_WAITING, False, token), said) y \<and> turn_result y r)"
  unfolding wifi_nok_def
  by (intro traced_walks_step [OF traced_walks_status] traced_walks_step [OF traced_walks_sleep]
      traced_walks_step [OF traced_walks_waiting] traced_walks_step [OF traced_walks_advertise] traced_walks_return)
    (auto simp: status_next_def status_defs turn_result_def split: sum.splits)

lemma traced_walks_try:
  assumes "paired said creds" "traced E claim_hub tells_token"
  shows "traced E (try_credentials claim_hub creds)
    (\<lambda>tr r. \<exists>y. walks tr ((Some STATUS_WAITING, False, None), (said, tried)) y \<and> turn_result y r)"
  unfolding try_credentials_def
proof (rule traced_bind, rule traced_conseq [OF traced_walks_connect [OF assms(1)]], elim exE conjE)
  fix tr c after assume c: "c \<noteq> Panic" "c = Val (Inr ()) \<longrightarrow> snd after = Some creds"
    and w: "walks tr ((Some STATUS_WAITING, False, None), (said, tried)) ((Some STATUS_WAITING, c = Val (Inr ()), None), after)"
  have "traced E (case c of Panic \<Rightarrow> State_Monad.return (Some Panic)
     | Val (Inr _) \<Rightarrow> wifi_ok claim_hub creds | Val (Inl e) \<Rightarrow> wifi_nok)
    (\<lambda>tr' r. \<exists>y. walks tr' ((Some STATUS_WAITING, c = Val (Inr ()), None), after) y \<and> turn_result y r)"
    using c traced_walks_wifi_ok [OF assms(2)] traced_walks_wifi_nok
    by (auto split: rs.splits sum.splits)
  then show "traced E (case c of Panic \<Rightarrow> State_Monad.return (Some Panic)
     | Val (Inr _) \<Rightarrow> wifi_ok claim_hub creds | Val (Inl e) \<Rightarrow> wifi_nok)
    (\<lambda>tr' r. \<exists>y. walks (tr @ tr') ((Some STATUS_WAITING, False, None), (said, tried)) y \<and> turn_result y r)"
    by (rule traced_conseq) (elim exE conjE, intro exI conjI, rule walks_append [OF w], assumption+)
qed


section \<open>The whole run\<close>

lemma traced_walks_turns:
  assumes claim: "traced E claim_hub tells_token" and "pending_of said p"
  shows "traced E (prov_turns claim_hub n p)
    (\<lambda>tr r. \<exists>y. walks tr ((Some STATUS_WAITING, False, None), (said, tried)) y \<and> turn_result y r)"
  using assms(2)
proof (induction n arbitrary: p said tried)
  case 0
  then show ?case
    unfolding prov_turns.simps by (intro traced_walks_return) (simp add: turn_result_def)
next
  case (Suc n)
  let ?W = "(Some STATUS_WAITING, False, None)"
  have rest: "traced E (case ended of Some r \<Rightarrow> State_Monad.return (Some r) | None \<Rightarrow> prov_turns claim_hub n p')
      (\<lambda>tr r. \<exists>z. walks tr y z \<and> turn_result z r)"
    if "turn_result y ended" "pending_of (fst (snd y)) p'" for y ended p'
  proof (cases ended)
    case None
    with that have "fst y = ?W" by (simp add: turn_result_def)
    then obtain q tried' where "y = (?W, (q, tried'))" by (cases y) auto
    with Suc.IH [of q p' tried'] that(2) None show ?thesis by simp
  next
    case (Some r)
    show ?thesis
      unfolding Some option.case by (rule traced_walks_return) (use that Some in blast)
  qed
  have turn: "traced E (do { ended \<leftarrow> (case state of
         Complete creds \<Rightarrow> try_credentials claim_hub creds
       | WaitingForPassword ssid \<Rightarrow> State_Monad.return None
       | WaitingForSsid \<Rightarrow> State_Monad.return None
       | Empty \<Rightarrow> State_Monad.return None);
     case ended of Some r \<Rightarrow> State_Monad.return (Some r) | None \<Rightarrow> prov_turns claim_hub n p' })
      (\<lambda>tr r. \<exists>z. walks tr (?W, (said', tried)) z \<and> turn_result z r)"
    if "pending_of said' q" "next_pending_credentials_state q = (state, p')" for said' q state p'
  proof -
    note looked = next_pending_complete [OF that]
    have idle: "turn_result (?W, (said', tried)) None" by (simp add: turn_result_def)
    show ?thesis
    proof (cases state)
      case (Complete creds)
      with looked have pair: "paired said' creds" and none: "p' = no_pending" by simp_all
      show ?thesis
        unfolding Complete pending_state.case
        by (rule traced_walks_bind [OF traced_walks_try [OF pair claim]], rule rest)
          (simp_all add: none no_pending_def)
    qed (use looked that(1) rest [OF idle] in simp_all)
  qed
  have writes: "traced E (ask (\<lambda>E h. client_writes_at (gatt_of E) h) (\<lambda>ws. Gatt (ClientWrites ws)))
      (\<lambda>tr ws. \<exists>y. walks tr (?W, (said, tried)) y \<and> y = (?W, (said @ concat (map received ws), tried)))"
    by (rule traced_ask) (simp add: walks_def)
  show ?case
    unfolding prov_turns.simps
  proof (intro traced_walks_step [OF traced_walks_sleep] traced_walks_bind [OF writes] traced_Let traced_case_prod, goal_cases)
    case (1 _ y ws state p')
    then have "pending_of (fst (snd y)) (fold on_write ws p)"
      unfolding on_writes_received using pending_of_inputs [OF Suc.prems] by simp
    from turn [OF this 1(2)] 1(1) show ?case by (simp only: fst_conv snd_conv)
  qed
qed

lemma run_walks:
  assumes "traced E claim_hub tells_token"
  shows "traced E (wifi_prov_run claim_hub n) (\<lambda>tr r. \<exists>y. walks tr ((None, False, None), ([], None)) y \<and> turn_result y r)"
proof -
  have create: "traced E create_characteristics
      (\<lambda>tr _. walks tr ((None, False, None), ([], None)) ((Some STATUS_WAITING, False, None), ([], None)))"
    unfolding create_characteristics_def set_status_def set_value_def
    by (intro traced_intro) (simp add: walks_def status_next_def)
  show ?thesis
    unfolding wifi_prov_run_def
  proof (intro traced_walks_step [OF create] traced_walks_step [OF traced_walks_advertise], goal_cases)
    case (1 u adv)
    have "pending_of [] no_pending" by (simp add: no_pending_def)
    from traced_walks_turns [OF assms this] show ?case
    proof (cases adv)
      case (Inl e)
      show ?thesis
        unfolding Inl sum.case by (rule traced_walks_return) (simp add: turn_result_def)
    qed (simp only: sum.case)
  qed
qed

text \<open>
  C7: a provisioning run shows the phone the truth and never mixes credentials. Whatever the phone
  writes and when, and whatever fails: every network that is tried is a pair of the phone's
  last SSID and its last password written after it, both since the last try; the status follows the
  protocol (waiting, Wi-Fi tried, claim tried, probes sought, done), with success of the Wi-Fi shown exactly
  when an address was obtained, and then success of the claim exactly when the hub's token was found in
  the flash or stored there, and failure otherwise; a run that ends well ends in the last status, with the
  pair tried last and that token, an error or a failed attempt ends in waiting; and nothing panics.
\<close>

theorem provisioning_truthful:
  "traced E (wifi_prov_run (claim_hub_after_time_sync build) n) (\<lambda>tr r. \<exists>shown tries.
     run_steps status_step tr (None, False, None) = Some shown \<and>
     run_steps try_step tr ([], None) = Some tries \<and> turn_result (shown, tries) r)"
  by (rule traced_conseq [OF run_walks [OF claim_tells_token]]) (auto simp: walks_def)

end
