(* ===== verification/Prov_Ends.thy ===== *)
theory Prov_Ends
  imports Prov_Props
begin

text \<open>
  Provisioning ends: with a working network, clock, flash and backend (\<open>healthy\<close>), the run returns at
  the turn that finds the first complete pair in the writes of the phone (\<open>first_pair\<close>).
\<close>

section \<open>Provisioning ends\<close>

text \<open>Everything the run depends on works, for these credentials.\<close>

definition healthy :: "env \<Rightarrow> wifi_credentials \<Rightarrow> bool" where
  "healthy E creds \<longleftrightarrow>
     ssid_try_into (wifi_of E) (wc_ssid creds) = Inr () \<and>
     password_try_into (wifi_of E) (wc_password creds) = Inr () \<and>
     flash_reliable E \<and>
     (\<forall>h. wifi_set_configuration_at (wifi_of E) h (wc_ssid creds) (wc_password creds) = Inr () \<and>
       wifi_start_at (wifi_of E) h = Inr () \<and>
       (\<exists>aps. wifi_scan_at (wifi_of E) h = Inr aps \<and> list_ex (\<lambda>ap. ap = wc_ssid creds) aps) \<and>
       wifi_connect_at (wifi_of E) h = Inr () \<and> wifi_netif_up_at (wifi_of E) h = Inr () \<and>
       wifi_ip_info_at (wifi_of E) h = Inr () \<and>
       adv_set_data_at (gatt_of E) h = Inr () \<and> adv_start_at (gatt_of E) h = Inr () \<and>
       sntp_start_at E h = Inr () \<and> sntp_status_at E h = SyncCompleted \<and>
       runtime_at E h = Inr () \<and> auth_dial_at E h = Inr () \<and>
       (\<forall>ns key v. nvs_set_str_at (flash_of E) h ns key v = Inr ()) \<and>
       (\<forall>d s. \<exists>t. claim_at E h d s = Inr t))"

lemma traced_ask_exact: "(\<And>h. Q [ev (f E h)] (f E h)) \<Longrightarrow> traced E (ask f ev) Q"
  by (auto simp: traced_def)

text \<open>Programs that return a value and no error.\<close>

definition returns :: "env \<Rightarrow> 'a res io \<Rightarrow> bool" where
  "returns E m \<longleftrightarrow> traced E m (\<lambda>_ r. \<exists>a. r = Inr a)"

lemma returns_try: "returns E m \<Longrightarrow> (\<And>a. returns E (f a)) \<Longrightarrow> returns E (try_io m f)"
  unfolding returns_def by (rule traced_try) (auto elim!: traced_conseq)

lemma returns_context: "returns E m \<Longrightarrow> returns E (with_context message m)"
  unfolding returns_def by (auto intro!: traced_with_context elim!: traced_conseq)

lemma returns_return: "returns E (State_Monad.return (Inr a))"
  unfolding returns_def by (rule traced_return) blast

lemma returns_ask: "(\<And>h. \<exists>a. f E h = Inr a) \<Longrightarrow> returns E (ask f ev)"
  unfolding returns_def by (rule traced_ask_exact)

lemma returns_reader: "flash_reliable E \<Longrightarrow> returns E (read_str ns key)"
  unfolding returns_def
proof (rule tracedI)
  fix w :: world assume "flash_reliable E" "env_of w = E"
  from persist.works [OF this(1), of "hist w" ns key] \<open>env_of w = E\<close>
  show "\<exists>tr r. run_state (read_str ns key) w = (r, w\<lparr>hist := hist w @ tr\<rparr>) \<and> (\<exists>a. r = Inr a)"
    unfolding ends_def by (cases w) auto
qed

lemma returns_open:
  assumes "flash_reliable E"
  shows "returns E (nvs_open ns rw)"
  unfolding returns_def nvs_open_def
  by (rule traced_bind, rule traced_ask_exact, rule traced_return)
    (simp add: flash_reliable_open [OF assms])

lemma claim_returns:
  assumes "healthy E creds"
  shows "returns E (claim_hub_after_time_sync build)"
proof -
  note h = assms [unfolded healthy_def]
  have reliable: "flash_reliable E" and start: "\<And>h. \<exists>a. sntp_start_at E h = Inr a"
    and rt: "\<And>h. \<exists>a. runtime_at E h = Inr a" and dial: "\<And>h. \<exists>a. auth_dial_at E h = Inr a"
    and wr: "\<And>h ns key v. \<exists>a. nvs_set_str_at (flash_of E) h ns key v = Inr a"
    using h by blast+
  have sync: "returns E (sync_attempts [1..<31])"
  proof -
    have "[1..<31] = (1::nat) # [2..<31]" by (simp add: upt_rec)
    then show ?thesis
      using h by (auto simp: returns_def intro!: traced_bind traced_ask_exact traced_return)
  qed
  have claim: "returns E (claim_hub_token d s)" for d s
    unfolding claim_hub_token_def
  proof (intro returns_try returns_context returns_ask dial)
    show "returns E (do { resp \<leftarrow> ask (\<lambda>E h. claim_at E h d s) (ClaimRpc d s);
       State_Monad.return (case resp of Inr token \<Rightarrow> Inr token | Inl FailedPrecondition \<Rightarrow> Inl AlreadyClaimed
         | Inl (OtherStatus status) \<Rightarrow> Inl (Context ''auth.v2.ClaimHubToken RPC failed'' status)) })"
      unfolding returns_def
    proof (rule traced_bind, rule traced_ask_exact, rule traced_return)
      fix h'
      from h obtain t where "claim_at E h' d s = Inr t" by blast
      then show "\<exists>a. (case claim_at E h' d s of Inr token \<Rightarrow> Inr token | Inl FailedPrecondition \<Rightarrow> Inl AlreadyClaimed
         | Inl (OtherStatus status) \<Rightarrow> Inl (Context ''auth.v2.ClaimHubToken RPC failed'' status)) = Inr a" by simp
    qed
  qed
  have asks: "returns E (ask sntp_start_at SntpStart)" "returns E (ask runtime_at RuntimeBuild)"
    "returns E (ask (\<lambda>E h. nvs_set_str_at (flash_of E) h ns key v) (\<lambda>r. Flash (NvsSetStr ns key v r)))" for ns key v
    by (rule returns_ask, rule start rt wr)+
  note parts = returns_try returns_context returns_return returns_open [OF reliable] returns_reader [OF reliable]
    asks sync claim
  show ?thesis
    unfolding claim_hub_after_time_sync_def get_sync_sntp_def provision_hub_def load_or_generate_creds_def
      seed_jwt_from_env_def write_hub_jwt_def read_hub_jwt_def nvs_set_str_def Let_def
    by (intro parts) (auto intro!: parts split: option.splits prod.splits)
qed


lemma connect_returns:
  assumes "healthy E creds" and m: "m \<noteq> 0"
  shows "traced E (connect_with_attempts (wc_ssid creds) (wc_password creds) m) (\<lambda>_ r. r = Val (Inr ()))"
proof -
  note h = assms [unfolded healthy_def]
  have asked: "traced E (wifi_ask f ev) Q" if "\<And>h. Q [Wifi (ev (f (wifi_of E) h))] (f (wifi_of E) h)"
    for f :: "wifi_env \<Rightarrow> history \<Rightarrow> 'r" and ev Q
    unfolding wifi_ask_def by (rule traced_ask_exact) (rule that)
  obtain xs where one: "[1..<Suc (unat m)] = 1 # xs"
    using m by (simp add: upt_rec unat_gt_0 del: upt_Suc)
  have scan: "\<exists>aps. wifi_scan_at (wifi_of E) h' = Inr aps \<and> list_ex (\<lambda>ap. ap = wc_ssid creds) aps" for h'
    using h by blast
  have join: "traced E (connect_attempts m [1..<Suc (unat m)] None) (\<lambda>_ r. r = Val (Inr ()))"
    unfolding one connect_attempts.simps try_io_def
    using h by (auto intro!: traced_bind asked traced_return)
  have scanned: "traced E (try_rs (wifi_ask wifi_scan_at WifiScan) (\<lambda>ap_infos.
     let found = list_ex (\<lambda>ap. ap = wc_ssid creds) ap_infos in
     if \<not> found then do {
       _ \<leftarrow> wifi_ask wifi_disconnect_at WifiDisconnect;
       _ \<leftarrow> wifi_ask wifi_stop_at WifiStop;
       State_Monad.return (Val (Inl (SsidNotFound (wc_ssid creds))))
     }
     else connect_attempts m [1..<Suc (unat m)] None)) (\<lambda>_ r. r = Val (Inr ()))"
  proof (rule traced_try_rs, rule asked)
    fix h'
    from scan [of h'] obtain aps where "wifi_scan_at (wifi_of E) h' = Inr aps" "list_ex (\<lambda>ap. ap = wc_ssid creds) aps" by blast
    with join show "case wifi_scan_at (wifi_of E) h' of Inl e \<Rightarrow> Val (Inl e) = Val (Inr ()) | Inr ap_infos \<Rightarrow>
      traced E (let found = list_ex (\<lambda>ap. ap = wc_ssid creds) ap_infos in
        if \<not> found then do {
          _ \<leftarrow> wifi_ask wifi_disconnect_at WifiDisconnect;
          _ \<leftarrow> wifi_ask wifi_stop_at WifiStop;
          State_Monad.return (Val (Inl (SsidNotFound (wc_ssid creds))))
        }
        else connect_attempts m [1..<Suc (unat m)] None) (\<lambda>_ r. r = Val (Inr ()))"
      by simp
  qed
  show ?thesis
    unfolding connect_with_attempts_def
    using h scanned by (auto intro!: traced_try_rs traced_library asked)
qed

lemma try_returns:
  assumes "healthy E creds" "returns E claim_hub"
  shows "traced E (try_credentials claim_hub creds) (\<lambda>_ r. \<exists>hub. r = Some (Val (Inr hub)) \<and> ph_credentials hub = creds)"
proof -
  have total: "traced E (notify_status s) (\<lambda>_ _. True)" "traced E (emit e) (\<lambda>_ _. True)" for s e
    unfolding notify_status_def set_status_def set_value_def by (intro traced_intro TrueI)+
  have finish: "traced E (finish_provisioning creds d jwt)
      (\<lambda>_ r. \<exists>hub. r = Some (Val (Inr hub)) \<and> ph_credentials hub = creds)" for d jwt
    by (rule traced_conseq [OF traced_walks_finish [where said = "([], None)"]]) auto
  have ok: "traced E (wifi_ok claim_hub creds) (\<lambda>_ r. \<exists>hub. r = Some (Val (Inr hub)) \<and> ph_credentials hub = creds)"
    unfolding wifi_ok_def
    by (rule traced_bind, rule traced_conseq [OF total(1)], rule traced_bind, rule traced_conseq [OF total(2)],
        rule traced_bind, rule traced_conseq [OF save_inert], rule traced_bind,
        rule traced_conseq [OF assms(2) [unfolded returns_def]]) (auto intro: finish)
  show ?thesis
    unfolding try_credentials_def connect_for_provisioning_def
    by (rule traced_bind, rule traced_conseq [OF connect_returns [OF assms(1)]]) (simp_all add: ok)
qed

section \<open>The phone's script\<close>

text \<open>
  The phone writes \<open>script i\<close> before turn \<open>i\<close>; \<open>first_pair\<close> is the first complete pair the turns from \<open>i\<close> on
  find.
\<close>

fun is_writes :: "event \<Rightarrow> bool" where
  "is_writes (Gatt (ClientWrites _)) = True"
| "is_writes _ = False"

definition scripted :: "env \<Rightarrow> (nat \<Rightarrow> (string \<times> bytes) list) \<Rightarrow> bool" where
  "scripted E script \<longleftrightarrow> (\<forall>h. client_writes_at (gatt_of E) h = script (count is_writes h))"

fun first_pair :: "(nat \<Rightarrow> (string \<times> bytes) list) \<Rightarrow> nat \<Rightarrow> nat \<Rightarrow> pending_credentials \<Rightarrow> wifi_credentials option" where
  "first_pair script i 0 p = None"
| "first_pair script i (Suc n) p =
     (case next_pending_credentials_state (fold on_write (script i) p) of
        (Complete creds, _) \<Rightarrow> Some creds
      | (_, p') \<Rightarrow> first_pair script (Suc i) n p')"

lemma ends_turns:
  assumes "scripted E script" "healthy E creds" "returns E claim_hub"
    and "first_pair script (count is_writes h) n p = Some creds"
  shows "ends E h (prov_turns claim_hub n p) (\<lambda>_ r. \<exists>hub. r = Some (Val (Inr hub)) \<and> ph_credentials hub = creds)"
  using assms(4)
proof (induction n arbitrary: h p)
  case (Suc n)
  let ?ws = "script (count is_writes h)"
  have ws: "client_writes_at (gatt_of E) (h @ [SleepMs 500]) = ?ws"
    using assms(1) by (simp add: scripted_def)
  obtain state p' where look: "next_pending_credentials_state (fold on_write ?ws p) = (state, p')" by fastforce
  have rest: "ends E (h @ [SleepMs 500, Gatt (ClientWrites ?ws)]) (prov_turns claim_hub n p')
      (\<lambda>_ r. \<exists>hub. r = Some (Val (Inr hub)) \<and> ph_credentials hub = creds)" if "\<forall>c. state \<noteq> Complete c"
    using Suc.prems that look by (intro Suc.IH) (auto split: pending_state.splits)
  have tried: "ends E h' (try_credentials claim_hub creds) (\<lambda>_ r. \<exists>hub. r = Some (Val (Inr hub)) \<and> ph_credentials hub = creds)" for h'
    by (rule ends_traced [OF try_returns [OF assms(2,3)]])
  show ?case
    unfolding prov_turns.simps
    by (intro ends_bind ends_emit ends_ask ends_Let)
      (use Suc.prems look rest in \<open>auto simp: ws split: pending_state.splits
        intro!: ends_bind ends_return ends_conseq [OF tried]\<close>)
qed simp


lemma ends_prov_run:
  assumes "scripted E script" and "healthy E creds"
    and "first_pair script (count is_writes h) n no_pending = Some creds"
  shows "ends E h (wifi_prov_run (claim_hub_after_time_sync build) n)
    (\<lambda>_ r. \<exists>hub. r = Some (Val (Inr hub)) \<and> ph_credentials hub = creds)"
proof -
  have adv: "adv_set_data_at (gatt_of E) h = Inr ()" "adv_start_at (gatt_of E) h = Inr ()" for h
    using assms(2) by (simp_all add: healthy_def)
  have "ends E h' (prov_turns (claim_hub_after_time_sync build) n no_pending)
      (\<lambda>_ r. \<exists>hub. r = Some (Val (Inr hub)) \<and> ph_credentials hub = creds)" if "count is_writes h' = count is_writes h" for h'
    using ends_turns [OF assms(1,2) claim_returns [OF assms(2)], of h' n no_pending build] assms(3) that by simp
  then show ?thesis
    unfolding wifi_prov_run_def create_characteristics_def advertise_def try_io_def set_status_def set_value_def
    by (auto intro!: ends_bind ends_emit ends_ask ends_return simp: adv)
qed

text \<open>
  C8: provisioning ends. When the phone writes an SSID and then its password, at any time, with
  whatever it wrote before and in whatever portions, then the run returns at the turn that finds
  the first complete pair, provided that the network, the clock, the flash and the backend work; and
  it returns the hub with exactly this pair.
\<close>

theorem provisioning_ends:
  assumes "scripted E script" and "healthy E creds"
    and "first_pair script 0 n no_pending = Some creds"
  shows "ends E [] (wifi_prov_run (claim_hub_after_time_sync build) n)
    (\<lambda>_ r. \<exists>hub. r = Some (Val (Inr hub)) \<and> ph_credentials hub = creds)"
  by (rule ends_prov_run [OF assms(1,2)]) (simp add: assms(3))

definition phone :: "nat \<Rightarrow> (string \<times> bytes) list" where
  "phone i = (if i = 0 then [(CHAR_PASSWORD_UUID, bytes_of_str ''old''), (CHAR_SSID_UUID, bytes_of_str ''home'')]
     else if i = 1 then [(CHAR_PASSWORD_UUID, bytes_of_str ''pw'')] else [])"

definition phone_env :: env where
  "phone_env = (working_env Map.empty)\<lparr>gatt_of := (gatt_of calm_env)
     \<lparr>client_writes_at := \<lambda>h. phone (count is_writes h)\<rparr>\<rparr>"

lemma phone_scripted: "scripted phone_env phone"
  by (simp add: scripted_def phone_env_def)

lemma phone_healthy: "healthy phone_env \<lparr>wc_ssid = ''home'', wc_password = ''pw''\<rparr>"
  by (simp add: healthy_def phone_env_def working_env_def working_flash_def calm_env_def flash_reliable_def)

lemma phone_pair: "first_pair phone 0 2 no_pending = Some \<lparr>wc_ssid = ''home'', wc_password = ''pw''\<rparr>"
  by code_simp

theorem provisioning_ends_witness:
  "ends phone_env [] (wifi_prov_run (claim_hub_after_time_sync sample_build) 2)
     (\<lambda>_ r. \<exists>hub. r = Some (Val (Inr hub)) \<and> ph_credentials hub = \<lparr>wc_ssid = ''home'', wc_password = ''pw''\<rparr>)"
  by (rule provisioning_ends [OF phone_scripted phone_healthy phone_pair])

end
