(* ===== verification/Uplink.thy ===== *)
theory Uplink
  imports Poller_Props
begin

text \<open>
  Uploading a reading (\<open>upload_reading\<close>, \<open>upload_reading_once\<close> of \<open>src/main.rs\<close>): up to three attempts
  with a pause between them, every attempt with its own runtime and connection. \<open>upload_run\<close> is the
  specification of the loop.
\<close>

definition GRPC_SEND_MAX_ATTEMPTS :: nat where "GRPC_SEND_MAX_ATTEMPTS = 3"
definition GRPC_RETRY_BACKOFF_MS :: nat where "GRPC_RETRY_BACKOFF_MS = 500"

record sensor_reading =
  sr_node_id :: string
  sr_air_temperature_c :: f64
  sr_air_pressure_pa :: f64
  sr_air_humidity_pct :: f64
  sr_soil_temperature_c :: f64
  sr_soil_humidity_pct :: f64
  sr_timestamp_unix :: i64

definition insert_request_of :: "sensor_reading \<Rightarrow> insert_request" where
  "insert_request_of reading = \<lparr>ir_node_id = sr_node_id reading,
     ir_air_temperature = sr_air_temperature_c reading, ir_air_pressure = sr_air_pressure_pa reading,
     ir_air_humidity = sr_air_humidity_pct reading,
     ir_soil_temperature = sr_soil_temperature_c reading,
     ir_soil_humidity = sr_soil_humidity_pct reading, ir_timestamp = sr_timestamp_unix reading\<rparr>"

definition upload_reading_once :: "string \<Rightarrow> sensor_reading \<Rightarrow> unit res io" where
  "upload_reading_once jwt reading =
     with_client jwt (\<lambda>client. send_data client (insert_request_of reading))"

text \<open>\<open>for send_attempt in 1..=GRPC_SEND_MAX_ATTEMPTS\<close>, left by the \<open>return\<close> after a success.\<close>

fun upload_attempts :: "nat list \<Rightarrow> string \<Rightarrow> sensor_reading \<Rightarrow> unit io" where
  "upload_attempts [] jwt reading = State_Monad.return ()"
| "upload_attempts (send_attempt # rest) jwt reading = do {
     send_result \<leftarrow> upload_reading_once jwt reading;
     case send_result of
       Inr _ \<Rightarrow> State_Monad.return ()
     | Inl _ \<Rightarrow> do {
         _ \<leftarrow> (if send_attempt < GRPC_SEND_MAX_ATTEMPTS
              then emit (SleepMs GRPC_RETRY_BACKOFF_MS) else State_Monad.return ());
         upload_attempts rest jwt reading
       }
   }"

definition upload_reading :: "string \<Rightarrow> sensor_reading \<Rightarrow> unit io" where
  "upload_reading jwt reading = upload_attempts [1..<Suc GRPC_SEND_MAX_ATTEMPTS] jwt reading"

section \<open>Traces of an upload\<close>

text \<open>One attempt, and whether the backend stored the reading.\<close>

definition upload_trace :: "string \<Rightarrow> insert_request \<Rightarrow> history \<Rightarrow> bool \<Rightarrow> bool" where
  "upload_trace jwt request tr ok \<longleftrightarrow> (failed_exchange tr \<and> \<not> ok) \<or>
     (\<exists>r. tr = exchange (InsertRpc (bearer jwt) request r) \<and> ok = (\<exists>resp. r = Inr resp \<and> is_success resp))"

lemma traced_upload_reading_once [traced_intro]:
  assumes "\<And>tr r. upload_trace jwt (insert_request_of reading) tr (r = Inr ()) \<Longrightarrow> Q tr r"
  shows "traced E (upload_reading_once jwt reading) Q"
  unfolding upload_reading_once_def
proof (rule traced_with_client_unary [where post = "\<lambda>resp. case resp of Inl e \<Rightarrow> Inl e
     | Inr resp \<Rightarrow> if \<not> is_success resp then Inl (ServerRejected (is_message resp)) else Inr ()"])
  fix r :: "insert_response res"
  show "Q (exchange (InsertRpc (bearer jwt) (insert_request_of reading) r))
      (case r of Inl e \<Rightarrow> Inl e
       | Inr resp \<Rightarrow> if \<not> is_success resp then Inl (ServerRejected (is_message resp)) else Inr ())"
    by (rule assms) (auto simp: upload_trace_def split: sum.splits)
next
  fix client
  show "send_data client (insert_request_of reading) = do {
      r \<leftarrow> unary client (\<lambda>E h. insert_at E h (insert_request_of reading)) (\<lambda>a. InsertRpc a (insert_request_of reading));
      State_Monad.return (case r of Inl e \<Rightarrow> Inl e
        | Inr resp \<Rightarrow> if \<not> is_success resp then Inl (ServerRejected (is_message resp)) else Inr ()) }"
    unfolding send_data_def
    by (rule arg_cong [where f = "State_Monad.bind _"], rule ext) (auto split: sum.splits)
qed (auto intro: assms simp: upload_trace_def)

text \<open>
  The trace of an upload with the given attempts left: failures, each followed by a pause unless it
  is the last one allowed, then a success or nothing.
\<close>

inductive upload_run :: "string \<Rightarrow> insert_request \<Rightarrow> nat list \<Rightarrow> history \<Rightarrow> bool \<Rightarrow> bool" for jwt request where
  give_up: "upload_run jwt request [] [] False"
| stored: "upload_trace jwt request tr True \<Longrightarrow> upload_run jwt request (n # ns) tr True"
| retry: "upload_trace jwt request tr False \<Longrightarrow> upload_run jwt request ns tr' ok \<Longrightarrow>
    upload_run jwt request (n # ns)
      (tr @ (if n < GRPC_SEND_MAX_ATTEMPTS then [SleepMs GRPC_RETRY_BACKOFF_MS] else []) @ tr') ok"

lemma traced_upload_attempts:
  "traced E (upload_attempts ns jwt reading) (\<lambda>tr _. \<exists>ok. upload_run jwt (insert_request_of reading) ns tr ok)"
proof (induction ns)
  case Nil
  then show ?case by (auto intro!: traced_return upload_run.give_up)
next
  case (Cons n ns)
  let ?run = "upload_run jwt (insert_request_of reading)"
  have pause: "\<exists>ok. ?run (n # ns) (tr @ SleepMs GRPC_RETRY_BACKOFF_MS # tr') ok"
    if "upload_trace jwt (insert_request_of reading) tr False" "n < GRPC_SEND_MAX_ATTEMPTS"
      "?run ns tr' ok" for tr tr' ok
    using upload_run.retry [OF that(1,3), of n] that(2) by auto
  have final: "\<exists>ok. ?run (n # ns) (tr @ tr') ok"
    if "upload_trace jwt (insert_request_of reading) tr False" "\<not> n < GRPC_SEND_MAX_ATTEMPTS"
      "?run ns tr' ok" for tr tr' ok
    using upload_run.retry [OF that(1,3), of n] that(2) by auto
  show ?case
    unfolding upload_attempts.simps
    by (intro traced_intro traced_conseq [OF Cons.IH])
      (auto intro: upload_run.stored pause final)
qed

section \<open>Attempts\<close>

fun is_attempt :: "event \<Rightarrow> bool" where
  "is_attempt (RuntimeBuild _) = True"
| "is_attempt _ = False"

text \<open>The backend answered that it stored this reading.\<close>

fun stored :: "insert_request \<Rightarrow> event \<Rightarrow> bool" where
  "stored request (InsertRpc _ request' (Inr resp)) = (request' = request \<and> is_success resp)"
| "stored _ _ = False"

lemma stored_InsertRpc:
  "stored request (InsertRpc a request' r) = (request' = request \<and> (\<exists>resp. r = Inr resp \<and> is_success resp))"
  by (cases r) auto

lemma upload_trace_counts:
  "upload_trace jwt request tr ok \<Longrightarrow> count is_attempt tr = 1 \<and>
     count (stored request) tr = (if ok then 1 else 0) \<and> sum_list (map sleeps tr) = 0 \<and> orderly hub jwt tr"
  by (auto simp: upload_trace_def failed_exchange_def exchange_def stored_InsertRpc orderly_def
      gate_balanced_def)

lemma upload_run_counts:
  "upload_run jwt request ns tr ok \<Longrightarrow> count is_attempt tr \<le> length ns \<and>
     (\<not> ok \<longrightarrow> count is_attempt tr = length ns) \<and> count (stored request) tr = (if ok then 1 else 0) \<and>
     sum_list (map sleeps tr) \<le> GRPC_RETRY_BACKOFF_MS * length (filter (\<lambda>n. n < GRPC_SEND_MAX_ATTEMPTS) ns)"
proof (induction rule: upload_run.induct)
  case (stored tr n ns)
  then show ?case by (simp add: upload_trace_counts [OF stored])
next
  case (retry tr ns tr' ok n)
  then show ?case by (cases ok) (simp_all add: upload_trace_counts [OF retry(1)])
qed simp

lemma orderly_upload_run: "upload_run jwt request ns tr ok \<Longrightarrow> orderly hub jwt tr"
proof (induction rule: upload_run.induct)
  case (retry tr ns tr' ok n)
  have "orderly hub jwt (if n < GRPC_SEND_MAX_ATTEMPTS then [SleepMs GRPC_RETRY_BACKOFF_MS] else [])"
    by (simp add: orderly_def gate_balanced_def)
  with retry upload_trace_counts [OF retry(1)] show ?case by (intro orderly.append) auto
qed (auto dest: upload_trace_counts)

lemma traced_upload_reading:
  "traced E (upload_reading jwt reading) (\<lambda>tr _. \<exists>ok.
     upload_run jwt (insert_request_of reading) [1, 2, 3] tr ok)"
  unfolding upload_reading_def
  using traced_upload_attempts [of E "[1, 2, 3]"]
  by (simp add: GRPC_SEND_MAX_ATTEMPTS_def upt_rec)

text \<open>
  C20: an upload makes at most three attempts, each with a connection of its own under the radio
  gate and with the hub's token; it stops at the first that the backend answers with success, so the
  reading is stored at most once by this upload; it gives up only after three failures; and it
  pauses for at most one second in total, never while holding the gate.
\<close>

theorem upload_bounded_retries:
  "traced E (upload_reading jwt reading) (\<lambda>tr _. orderly hub jwt tr \<and>
     count is_attempt tr \<le> 3 \<and> sum_list (map sleeps tr) \<le> 1000 \<and>
     (count (stored (insert_request_of reading)) tr = 1 \<or>
      count (stored (insert_request_of reading)) tr = 0 \<and> count is_attempt tr = 3))"
proof (rule traced_conseq [OF traced_upload_reading], elim exE)
  fix tr ok assume "upload_run jwt (insert_request_of reading) [1, 2, 3] tr ok"
  from upload_run_counts [OF this] orderly_upload_run [OF this, of hub]
  show "orderly hub jwt tr \<and> count is_attempt tr \<le> 3 \<and> sum_list (map sleeps tr) \<le> 1000 \<and>
     (count (stored (insert_request_of reading)) tr = 1 \<or>
      count (stored (insert_request_of reading)) tr = 0 \<and> count is_attempt tr = 3)"
    by (cases ok) (auto simp: GRPC_RETRY_BACKOFF_MS_def GRPC_SEND_MAX_ATTEMPTS_def)
qed

end
