(* ===== verification/Main_Loop.thy ===== *)
theory Main_Loop
  imports Ble_Props Uplink
begin

text \<open>
  The main loop of \<open>src/main.rs\<close>, from the first poll on: a scan, then for each candidate a session,
  the upload of its reading and the handling of what it said about motor commands, then a poll and a
  pause. The mutable \<open>command_poller\<close> is passed along. \<open>fake_probe\<close> is the cargo feature of that name.
  Log output is left out.
\<close>

definition SCAN_WAIT_SECONDS :: nat where "SCAN_WAIT_SECONDS = 30"

definition poll_commands_in_quiet_window :: "string \<Rightarrow> string \<Rightarrow> poller \<Rightarrow> poller io" where
  "poll_commands_in_quiet_window hub_device_id jwt p = poll_once hub_device_id jwt p"

text \<open>The closure handed to the session: the pending command of the probe, as a tuple.\<close>

definition resolve_dispatch :: "poller \<Rightarrow> string \<Rightarrow> (string \<times> u8 \<times> i32 \<times> i64) option" where
  "resolve_dispatch p probe_uuid =
     map_option (\<lambda>request. (dr_command_id request, dr_action request, dr_duration_ms request,
       dr_expires_at request)) (peek_pending_for_probe_uuid probe_uuid p)"

definition sensor_reading_of :: "probe_reading \<Rightarrow> sensor_reading" where
  "sensor_reading_of reading = \<lparr>sr_node_id = pb_probe_uuid reading,
     sr_air_temperature_c = pb_air_temperature_c reading,
     sr_air_pressure_pa = pb_air_pressure_pa reading,
     sr_air_humidity_pct = pb_air_humidity_pct reading,
     sr_soil_temperature_c = pb_soil_temperature_c reading,
     sr_soil_humidity_pct = pb_soil_humidity_pct reading,
     sr_timestamp_unix = pb_timestamp reading\<rparr>"

text \<open>What the loop does with a session that gave a reading.\<close>

definition handle_session :: "string \<Rightarrow> string \<Rightarrow> probe_session_result \<Rightarrow> poller \<Rightarrow> poller io" where
  "handle_session hub_device_id jwt probe_session p = do {
     let reading = ps_reading probe_session;
     _ \<leftarrow> upload_reading jwt (sensor_reading_of reading);
     let probe_result_is_terminal = (case ps_last_motor_result probe_session of
         Some result \<Rightarrow> is_terminal result | None \<Rightarrow> False);
     p \<leftarrow> (case ps_last_motor_result probe_session of
         Some probe_result \<Rightarrow> apply_probe_motor_result hub_device_id jwt (pb_probe_uuid reading)
           probe_result p
       | None \<Rightarrow> State_Monad.return p);
     if \<not> probe_result_is_terminal then
       (case ps_motor_dispatch_result probe_session of
          Some result \<Rightarrow> complete_dispatched_for_probe hub_device_id jwt (pb_probe_uuid reading) result p
        | None \<Rightarrow> State_Monad.return p)
     else State_Monad.return p
   }"

definition visit_candidate :: "string \<Rightarrow> string \<Rightarrow> probe_candidate \<Rightarrow> poller \<Rightarrow> poller io" where
  "visit_candidate hub_device_id jwt candidate p =
     (if meta_mode (cand_meta candidate) = Setup then do {
        _ \<leftarrow> run_with_radio_memory_gate (acknowledge_setup_probe (cand_device candidate));
        _ \<leftarrow> emit (SleepMs 500);
        State_Monad.return p
      } else do {
        r \<leftarrow> run_with_radio_memory_gate
          (read_probe_and_maybe_dispatch_motor (cand_device candidate) (resolve_dispatch p));
        p \<leftarrow> (case r of
            Inr (Some probe_session) \<Rightarrow> handle_session hub_device_id jwt probe_session p
          | Inr None \<Rightarrow> State_Monad.return p
          | Inl e \<Rightarrow> State_Monad.return p);
        _ \<leftarrow> emit (SleepMs 500);
        State_Monad.return p
      })"

text \<open>The synthetic reading of the \<open>fake-probe\<close> build.\<close>

definition fake_reading :: "string \<Rightarrow> i64 \<Rightarrow> sensor_reading" where
  "fake_reading hub_device_id time = \<lparr>sr_node_id = hub_device_id,
     sr_air_temperature_c = 43 / 2, sr_air_pressure_pa = 101325, sr_air_humidity_pct = 48,
     sr_soil_temperature_c = f64_div 187 10, sr_soil_humidity_pct = f64_div 333 10,
     sr_timestamp_unix = time * 1000\<rparr>"

definition inject_fake :: "bool \<Rightarrow> string \<Rightarrow> string \<Rightarrow> unit io" where
  "inject_fake fake_probe hub_device_id jwt =
     (if fake_probe then do {
        time \<leftarrow> ask esp_time_at EspTime;
        upload_reading jwt (fake_reading hub_device_id time)
      } else State_Monad.return ())"

text \<open>One turn of \<open>loop\<close>; each of its three ends polls and waits.\<close>

definition scan_cycle :: "bool \<Rightarrow> string \<Rightarrow> string \<Rightarrow> poller \<Rightarrow> poller io" where
  "scan_cycle fake_probe hub_device_id jwt p = do {
     scanned \<leftarrow> run_with_radio_memory_gate scan_probe_candidates;
     case scanned of
       Inl e \<Rightarrow> do {
         p \<leftarrow> poll_commands_in_quiet_window hub_device_id jwt p;
         _ \<leftarrow> emit (SleepMs (SCAN_WAIT_SECONDS * 1000));
         State_Monad.return p
       }
     | Inr candidates \<Rightarrow> do {
         _ \<leftarrow> inject_fake fake_probe hub_device_id jwt;
         if candidates = [] then do {
           p \<leftarrow> poll_commands_in_quiet_window hub_device_id jwt p;
           _ \<leftarrow> emit (SleepMs (SCAN_WAIT_SECONDS * 1000));
           State_Monad.return p
         } else do {
           p \<leftarrow> for_each candidates (visit_candidate hub_device_id jwt) p;
           p \<leftarrow> poll_commands_in_quiet_window hub_device_id jwt p;
           _ \<leftarrow> emit (SleepMs (SCAN_WAIT_SECONDS * 1000));
           State_Monad.return p
         }
       }
   }"

text \<open>The first \<open>n\<close> turns of the loop, which has no end in the source.\<close>

primrec run_cycles :: "bool \<Rightarrow> string \<Rightarrow> string \<Rightarrow> nat \<Rightarrow> poller \<Rightarrow> poller io" where
  "run_cycles fake_probe hub_device_id jwt 0 p = State_Monad.return p"
| "run_cycles fake_probe hub_device_id jwt (Suc n) p = do {
     p \<leftarrow> scan_cycle fake_probe hub_device_id jwt p;
     run_cycles fake_probe hub_device_id jwt n p
   }"

definition main_loop :: "bool \<Rightarrow> string \<Rightarrow> string \<Rightarrow> nat \<Rightarrow> poller io" where
  "main_loop fake_probe hub_device_id jwt n = do {
     let command_poller = empty_poller;
     command_poller \<leftarrow> poll_commands_in_quiet_window hub_device_id jwt command_poller;
     run_cycles fake_probe hub_device_id jwt n command_poller
   }"

end
