(* ===== verification/Main_Props.thy ===== *)
theory Main_Props
  imports Main_Loop
begin

text \<open>
  Properties of the main loop. \<open>faithful\<close> is what every part of it keeps: the radio gate and the
  credentials are used properly, the poller's invariant survives, and every report that a command was
  sent to its probe follows a write of that command which the probe acknowledged (\<open>sends_ok\<close>).
\<close>

section \<open>Radio sections\<close>

text \<open>Events of the radio, the clock and the gate: no call to the backend.\<close>

fun offline :: "event \<Rightarrow> bool" where
  "offline (InsertRpc _ _ _) = False"
| "offline (PullRpc _ _ _) = False"
| "offline (AckRpc _ _ _) = False"
| "offline _ = True"

lemma quiet_offline: "list_all quiet tr \<Longrightarrow> list_all offline tr"
proof (induction tr)
  case (Cons e tr)
  then show ?case by (cases e) simp_all
qed simp

lemma offline_addressed: "list_all offline tr \<Longrightarrow> list_all (addressed hub jwt) tr"
proof (induction tr)
  case (Cons e tr)
  then show ?case by (cases e) simp_all
qed simp

lemma motor_write_offline: "motor_write k action d expires tr r \<Longrightarrow> list_all offline tr"
  by (induction rule: motor_write.induct) auto

lemma session_offline: "session device resolve tr r \<Longrightarrow> list_all offline tr"
  by (induction rule: session.induct)
    (auto simp: quiet_offline result_trace_def dispatch_trace_def motor_write_offline split: option.splits)

lemma acknowledge_offline: "traced E (acknowledge_setup_probe device) (\<lambda>tr _. list_all offline tr)"
  unfolding acknowledge_setup_probe_def
  by (intro traced_intro) (simp_all add: confirmation_def)

lemma orderly_gated:
  "gate_held tr \<Longrightarrow> list_all offline tr \<Longrightarrow> orderly hub jwt (GateLock # tr @ [GateUnlock])"
  using gate_balanced_lock offline_addressed by (simp add: orderly_def)

section \<open>Reports of dispatches\<close>

text \<open>The probe acknowledged a write that carries this command.\<close>

definition delivered :: "string \<Rightarrow> history \<Rightarrow> bool" where
  "delivered k tr \<longleftrightarrow> (\<exists>p cid action duration left.
     WriteValue MOTOR_COMMAND_CHAR_UUID p (Inr ()) \<in> set tr \<and> uuid_of_text k = Some cid \<and>
     decode_motor_payload p = Some (action, cid, duration, left))"

text \<open>Whether a report that a command was sent to its probe is justified by what happened.\<close>

fun sent_justified :: "history \<Rightarrow> event \<Rightarrow> bool" where
  "sent_justified seen (AckRpc _ request _) =
     (if ar_status request = StatusSentToProbe then delivered (ar_command_id request) seen else True)"
| "sent_justified _ _ = True"

fun sends_ok :: "history \<Rightarrow> history \<Rightarrow> bool" where
  "sends_ok seen [] = True"
| "sends_ok seen (e # tr) = (sent_justified seen e \<and> sends_ok (seen @ [e]) tr)"

lemma delivered_mono: "delivered k a \<Longrightarrow> set a \<subseteq> set b \<Longrightarrow> delivered k b"
  unfolding delivered_def by blast

lemma sent_justified_mono: "sent_justified a e \<Longrightarrow> set a \<subseteq> set b \<Longrightarrow> sent_justified b e"
  by (cases e) (auto intro: delivered_mono)

lemma sends_ok_within: "list_all (sent_justified a) tr \<Longrightarrow> set a \<subseteq> set seen \<Longrightarrow> sends_ok seen tr"
proof (induction tr arbitrary: seen)
  case (Cons e tr)
  then have "set a \<subseteq> set (seen @ [e])" by auto
  with Cons show ?case by (auto intro: sent_justified_mono)
qed simp

lemma sends_ok_append: "sends_ok seen (a @ b) = (sends_ok seen a \<and> sends_ok (seen @ a) b)"
  by (induction a arbitrary: seen) simp_all

lemma sends_ok_mono: "sends_ok a tr \<Longrightarrow> set a \<subseteq> set b \<Longrightarrow> sends_ok b tr"
proof (induction tr arbitrary: a b)
  case (Cons e tr)
  then show ?case using Cons.IH [of "a @ [e]" "b @ [e]"] by (auto intro: sent_justified_mono)
qed simp

lemma offline_sends: "list_all offline tr \<Longrightarrow> list_all (sent_justified seen) tr"
proof (induction tr)
  case (Cons e tr)
  then show ?case by (cases e) simp_all
qed simp

text \<open>Handlers that report no dispatch.\<close>

lemma failed_exchange_offline: "failed_exchange tr \<Longrightarrow> list_all offline tr"
  by (auto simp: failed_exchange_def)

lemma ack_sends:
  "ack_trace jwt (ack_for hub k node status reason message) tr ok \<Longrightarrow>
   (status = StatusSentToProbe \<Longrightarrow> delivered k seen) \<Longrightarrow> list_all (sent_justified seen) tr"
  by (auto simp: ack_trace_def exchange_def intro: offline_sends failed_exchange_offline)

lemma store_step_sends: "store_step E hub jwt c p tr q \<Longrightarrow> list_all (sent_justified seen) tr"
  by (induction rule: store_step.induct) (auto dest!: refusal_status ack_sends)

lemma store_steps_sends: "store_steps E hub jwt cs p tr q \<Longrightarrow> list_all (sent_justified seen) tr"
  by (induction rule: store_steps.induct) (auto simp: store_step_sends)

lemma sweep_sends: "sweep hub jwt cs d tr ks d' \<Longrightarrow> list_all (sent_justified seen) tr"
  by (induction rule: sweep.induct) (auto dest!: ack_sends)

lemma poll_step_sends: "poll_step E hub jwt p tr q \<Longrightarrow> list_all (sent_justified seen) tr"
  by (induction rule: poll_step.induct)
    (auto simp: sweep_sends store_steps_sends exchange_def intro: offline_sends failed_exchange_offline)

lemma probe_result_not_sent: "probe_result_ack r = Some (status, reason, message) \<Longrightarrow> status \<noteq> StatusSentToProbe"
  by (auto simp: probe_result_ack_def split: if_splits)

lemma result_step_sends: "result_step hub jwt uuid r p tr q \<Longrightarrow> list_all (sent_justified seen) tr"
  by (induction rule: result_step.induct) (auto dest!: probe_result_not_sent ack_sends)

lemma upload_run_sends: "upload_run jwt request ns tr ok \<Longrightarrow> list_all (sent_justified seen) tr"
  by (induction rule: upload_run.induct)
    (auto simp: upload_trace_def exchange_def intro: offline_sends failed_exchange_offline)

lemma complete_step_sends:
  assumes "complete_step hub jwt uuid r p tr q"
    and "\<And>request. peek_pending_for_probe_uuid uuid p = Some request \<Longrightarrow> r = Inr () \<Longrightarrow>
      delivered (dr_command_id request) seen"
  shows "list_all (sent_justified seen) tr"
  using assms(1)
proof cases
  case (settled before c after stays d)
  have "delivered (pc_command_id c) seen" if "r = Inr ()"
    using assms(2) [OF peek_first [OF settled(2-4)] that] by (simp add: request_of_def)
  with settled(5) show ?thesis by cases (auto dest!: ack_sends)
qed simp

section \<open>The relation kept by the loop\<close>

text \<open>
  What every part of the loop keeps: its trace is orderly, the poller's invariant survives, and a
  report that a command was sent to its probe comes after an acknowledged write of that command.
\<close>

definition faithful :: "string \<Rightarrow> string \<Rightarrow> poller \<Rightarrow> history \<Rightarrow> poller \<Rightarrow> bool" where
  "faithful hub jwt p tr q \<longleftrightarrow>
     orderly hub jwt tr \<and> (poller_inv p \<longrightarrow> poller_inv q) \<and> sends_ok [] tr"

interpretation faithful: trace_relation "faithful hub jwt" for hub jwt
proof
  show "faithful hub jwt p [] p" for p by (simp add: faithful_def)
  show "faithful hub jwt p (a @ b) r" if "faithful hub jwt p a q" "faithful hub jwt q b r" for p a q b r
    using that sends_ok_mono [of "[]" b a] by (auto simp: faithful_def sends_ok_append intro: orderly.append)
qed

lemma faithful_op:
  "op_step E hub jwt p tr q \<Longrightarrow> list_all (sent_justified []) tr \<Longrightarrow> faithful hub jwt p tr q"
  by (auto simp: faithful_def orderly_op_step inv_op_step sends_ok_within)

lemma faithful_poll: "traced E (poll_commands_in_quiet_window hub jwt p) (faithful hub jwt p)"
  unfolding poll_commands_in_quiet_window_def
  by (rule traced_conseq [OF traced_poll_once])
    (auto intro: faithful_op op_step.poll poll_step_sends)

lemma faithful_same: "orderly hub jwt tr \<Longrightarrow> list_all (sent_justified []) tr \<Longrightarrow> faithful hub jwt p tr p"
  by (simp add: faithful_def sends_ok_within)

lemma faithful_pause: "faithful hub jwt p [SleepMs n] p"
  by (rule faithful_same) (simp_all add: orderly_def gate_balanced_def)

lemma faithful_upload: "traced E (upload_reading jwt reading) (\<lambda>tr _. faithful hub jwt p tr p)"
  by (rule traced_conseq [OF traced_upload_reading])
    (auto intro: faithful_same orderly_upload_run upload_run_sends)

lemma faithful_gated:
  "gate_held tr \<Longrightarrow> list_all offline tr \<Longrightarrow> faithful hub jwt p (GateLock # tr @ [GateUnlock]) p"
  by (rule faithful_same) (auto intro: orderly_gated offline_sends)

text \<open>The session of a probe and what follows it.\<close>

lemma peek_cong: "pending p = pending q \<Longrightarrow>
    peek_pending_for_probe_uuid uuid p = peek_pending_for_probe_uuid uuid q"
  by (simp add: peek_pending_for_probe_uuid_def)

lemma result_step_pending: "result_step hub jwt uuid r p tr q \<Longrightarrow> pending q = pending p"
  by (induction rule: result_step.induct) auto

lemma session_delivered:
  assumes "session_justified (resolve_dispatch p) str (Inr (Some s))"
    and "ps_motor_dispatch_result s = Some (Inr ())"
    and "peek_pending_for_probe_uuid (pb_probe_uuid (ps_reading s)) p = Some request"
  shows "delivered (dr_command_id request) str"
proof -
  from assms obtain payload where w: "WriteValue MOTOR_COMMAND_CHAR_UUID payload (Inr ()) \<in> set str"
    and "list_all (live_write (dr_command_id request) (dr_action request) (dr_expires_at request) str) str"
    by (auto simp: session_justified_def resolve_dispatch_def)
  then have "live_write (dr_command_id request) (dr_action request) (dr_expires_at request) str
      (WriteValue MOTOR_COMMAND_CHAR_UUID payload (Inr ()))"
    by (auto simp: list_all_iff)
  with w show ?thesis unfolding delivered_def by auto
qed

text \<open>What handling a session adds to the trace, given the session's own events.\<close>

definition handled :: "string \<Rightarrow> string \<Rightarrow> history \<Rightarrow> poller \<Rightarrow> history \<Rightarrow> poller \<Rightarrow> bool" where
  "handled hub jwt seen p tr q \<longleftrightarrow> orderly hub jwt tr \<and> (poller_inv p \<longrightarrow> poller_inv q) \<and>
     list_all (sent_justified seen) tr"

interpretation handled: trace_relation "handled hub jwt seen" for hub jwt seen
  by unfold_locales (auto simp: handled_def intro: orderly.append)

lemma handled_result:
  "traced E (apply_probe_motor_result hub jwt uuid r p) (\<lambda>tr q. handled hub jwt seen p tr q \<and> pending q = pending p)"
  by (rule traced_conseq [OF traced_apply_probe_motor_result])
    (auto simp: handled_def orderly_result_step inv_result_step result_step_sends result_step_pending)

lemma handled_complete:
  assumes "\<And>request. peek_pending_for_probe_uuid uuid p = Some request \<Longrightarrow> r = Inr () \<Longrightarrow>
      delivered (dr_command_id request) seen"
  shows "traced E (complete_dispatched_for_probe hub jwt uuid r p) (handled hub jwt seen p)"
  by (rule traced_conseq [OF traced_complete_dispatched])
    (auto simp: handled_def orderly_complete_step inv_complete_step complete_step_sends assms)

lemma handled_session:
  assumes "session_justified (resolve_dispatch p) str (Inr (Some s))"
  shows "traced E (handle_session hub jwt s p) (handled hub jwt str p)"
proof -
  let ?uuid = "pb_probe_uuid (ps_reading s)"
  have complete: "traced E (complete_dispatched_for_probe hub jwt ?uuid r q) (handled hub jwt str q)"
    if "pending q = pending p" "ps_motor_dispatch_result s = Some r" for q r
    using session_delivered [OF assms] that peek_cong [OF that(1)] by (intro handled_complete) auto
  have tail: "traced E (if \<not> terminal then (case ps_motor_dispatch_result s of
        Some result \<Rightarrow> complete_dispatched_for_probe hub jwt ?uuid result q | None \<Rightarrow> State_Monad.return q)
      else State_Monad.return q) (handled hub jwt str q)" if "pending q = pending p" for q terminal
    using complete [OF that] by (auto intro: handled.return split: option.splits)
  have upload: "traced E (upload_reading jwt x) (\<lambda>tr _. handled hub jwt str p tr p)" for x
    by (rule traced_conseq [OF traced_upload_reading])
      (auto simp: handled_def orderly_upload_run upload_run_sends)
  have result: "traced E (case ps_last_motor_result s of
        Some r \<Rightarrow> apply_probe_motor_result hub jwt ?uuid r p | None \<Rightarrow> State_Monad.return p)
      (\<lambda>tr q. handled hub jwt str p tr q \<and> pending q = pending p)"
    by (auto intro: handled_result traced_return handled.idle split: option.splits)
  show ?thesis
    unfolding handle_session_def Let_def
    by (rule traced_bind, rule traced_conseq [OF upload], rule traced_bind, rule traced_conseq [OF result],
        elim conjE, rule traced_conseq [OF tail]) (auto intro: handled.compose)
qed

section \<open>A cycle\<close>

lemma faithful_session_handled:
  assumes "gate_held str" "list_all offline str" "handled hub jwt str p tr q"
  shows "faithful hub jwt p ((GateLock # str @ [GateUnlock]) @ tr) q"
proof -
  have "sends_ok [] (GateLock # str @ [GateUnlock])"
    using assms(2) by (intro sends_ok_within [of "[]"]) (auto intro: offline_sends)
  moreover have "sends_ok (GateLock # str @ [GateUnlock]) tr"
    using assms(3) by (intro sends_ok_within [of str]) (auto simp: handled_def)
  ultimately have "sends_ok [] ((GateLock # str @ [GateUnlock]) @ tr)"
    unfolding sends_ok_append by simp
  with assms(3) orderly_gated [OF assms(1,2)] show ?thesis
    unfolding faithful_def handled_def by (blast intro: orderly.append)
qed

lemma faithful_visit_candidate:
  "traced E (visit_candidate hub jwt c p) (faithful hub jwt p)"
proof -
  have pause: "traced E (do { _ \<leftarrow> emit (SleepMs 500); State_Monad.return q }) (faithful hub jwt q)" for q
    by (intro traced_intro) (auto intro: faithful_pause)
  have confirm: "traced E (run_with_radio_memory_gate (acknowledge_setup_probe d))
      (\<lambda>tr _. faithful hub jwt p tr p)" for d
    unfolding run_with_radio_memory_gate_def
    by (rule traced_with_gate, rule traced_conseq [OF traced_conj [OF traced_acknowledge_setup_probe acknowledge_offline]])
      (auto simp: setup_session_def intro: faithful_gated [simplified])
  have probe: "traced E (do {
      r \<leftarrow> run_with_radio_memory_gate (read_probe_and_maybe_dispatch_motor d (resolve_dispatch p));
      case r of
        Inr (Some probe_session) \<Rightarrow> handle_session hub jwt probe_session p
      | Inr None \<Rightarrow> State_Monad.return p
      | Inl e \<Rightarrow> State_Monad.return p }) (faithful hub jwt p)" for d
    unfolding run_with_radio_memory_gate_def
  proof (rule traced_bind, rule traced_with_gate, rule traced_conseq [OF traced_session])
    fix tr r assume s: "session d (resolve_dispatch p) tr r"
    note facts = session_facts [OF s] session_offline [OF s]
    have gated: "faithful hub jwt p ((GateLock # tr @ [GateUnlock]) @ []) p"
      using faithful_gated [OF facts(3,4)] by simp
    show "traced E (case r of
        Inr (Some probe_session) \<Rightarrow> handle_session hub jwt probe_session p
      | Inr None \<Rightarrow> State_Monad.return p
      | Inl e \<Rightarrow> State_Monad.return p) (\<lambda>tr'. faithful hub jwt p ((GateLock # tr @ [GateUnlock]) @ tr'))"
    proof (cases "\<exists>ps. r = Inr (Some ps)")
      case True
      then obtain ps where r: "r = Inr (Some ps)" by blast
      show ?thesis
        unfolding r sum.case option.case
        by (rule traced_conseq [OF handled_session [OF facts(1) [unfolded r]]])
          (rule faithful_session_handled [OF facts(3,4)])
    next
      case False
      then show ?thesis
        using traced_return [of "\<lambda>tr'. faithful hub jwt p ((GateLock # tr @ [GateUnlock]) @ tr')" p, OF gated]
        by (auto split: sum.splits option.splits)
    qed
  qed
  show ?thesis
  proof (cases "meta_mode (cand_meta c) = Setup")
    case True
    then show ?thesis
      unfolding visit_candidate_def
      by simp (rule traced_bind, rule traced_conseq [OF confirm], rule traced_conseq [OF pause],
        auto intro: faithful.compose)
  next
    case False
    then show ?thesis
      unfolding visit_candidate_def
      using faithful.bind [OF probe pause] by simp
  qed
qed

lemma faithful_inject_fake:
  "traced E (inject_fake fake hub jwt) (\<lambda>tr _. faithful hub jwt p tr p)"
proof -
  have time: "faithful hub jwt p [EspTime t] p" for t
    by (rule faithful_same) (simp_all add: orderly_def gate_balanced_def)
  show ?thesis
    unfolding inject_fake_def
    by (intro traced_intro traced_conseq [OF faithful_upload [of E jwt _ hub p]])
      (auto dest: faithful.compose [OF time] intro: faithful.idle)
qed

lemma faithful_scan:
  "traced E (run_with_radio_memory_gate scan_probe_candidates) (\<lambda>tr _. faithful hub jwt p tr p)"
  unfolding run_with_radio_memory_gate_def
  by (rule traced_with_gate, rule traced_scan_probe_candidates)
    (rule faithful_same; simp add: orderly_def gate_balanced_def)+

lemma faithful_scan_cycle: "traced E (scan_cycle fake hub jwt p) (faithful hub jwt p)"
proof -
  have pause: "traced E (do { _ \<leftarrow> emit (SleepMs n); State_Monad.return q }) (faithful hub jwt q)" for q n
    by (intro traced_intro) (auto intro: faithful_pause)
  note poll = faithful.bind [OF faithful_poll pause]
  have cycle: "traced E (for_each cs (visit_candidate hub jwt) p) (faithful hub jwt p)" for cs
    by (rule faithful.loop) (rule faithful_visit_candidate)
  have rest: "traced E (case r of
      Inl e \<Rightarrow> do {
        p \<leftarrow> poll_commands_in_quiet_window hub jwt p;
        _ \<leftarrow> emit (SleepMs (SCAN_WAIT_SECONDS * 1000));
        State_Monad.return p }
    | Inr candidates \<Rightarrow> do {
        _ \<leftarrow> inject_fake fake hub jwt;
        if candidates = [] then do {
          p \<leftarrow> poll_commands_in_quiet_window hub jwt p;
          _ \<leftarrow> emit (SleepMs (SCAN_WAIT_SECONDS * 1000));
          State_Monad.return p
        } else do {
          p \<leftarrow> for_each candidates (visit_candidate hub jwt) p;
          p \<leftarrow> poll_commands_in_quiet_window hub jwt p;
          _ \<leftarrow> emit (SleepMs (SCAN_WAIT_SECONDS * 1000));
          State_Monad.return p
        } }) (faithful hub jwt p)" for r
  proof (cases r)
    case (Inl e)
    then show ?thesis by (simp add: poll)
  next
    case (Inr cs)
    have tail: "traced E (if cs = [] then do {
        p \<leftarrow> poll_commands_in_quiet_window hub jwt p;
        _ \<leftarrow> emit (SleepMs (SCAN_WAIT_SECONDS * 1000));
        State_Monad.return p
      } else do {
        p \<leftarrow> for_each cs (visit_candidate hub jwt) p;
        p \<leftarrow> poll_commands_in_quiet_window hub jwt p;
        _ \<leftarrow> emit (SleepMs (SCAN_WAIT_SECONDS * 1000));
        State_Monad.return p
      }) (faithful hub jwt p)"
      by (intro traced_if poll faithful.bind [OF cycle poll])
    show ?thesis
      unfolding Inr sum.case
      by (rule traced_bind, rule traced_conseq [OF faithful_inject_fake [of E fake hub jwt p]],
          rule traced_conseq [OF tail]) (auto intro: faithful.compose)
  qed
  show ?thesis
    unfolding scan_cycle_def
    by (rule traced_bind, rule traced_conseq [OF faithful_scan [of E hub jwt p]], rule traced_conseq [OF rest])
      (auto intro: faithful.compose)
qed

lemma faithful_run_cycles: "traced E (run_cycles fake hub jwt n p) (faithful hub jwt p)"
proof (induction n arbitrary: p)
  case 0
  then show ?case by (simp add: faithful.return)
next
  case (Suc n)
  show ?case by simp (rule faithful.bind [OF faithful_scan_cycle Suc])
qed

lemma faithful_main_loop: "traced E (main_loop fake hub jwt n) (faithful hub jwt empty_poller)"
  unfolding main_loop_def Let_def by (rule faithful.bind [OF faithful_poll faithful_run_cycles])

text \<open>
  C3: the hub never claims a delivery that did not happen. In any run of the main loop, with any
  answers of the radio, the probes, the backend and the clock, a report that a command was sent to
  its probe is preceded by a write to the motor characteristic which the probe acknowledged and from
  whose payload the probe decodes the id of that very command.
\<close>

theorem main_loop_sends_justified:
  "traced E (main_loop fake_probe hub jwt n) (\<lambda>tr _. sends_ok [] tr)"
  by (rule traced_conseq [OF faithful_main_loop]) (simp add: faithful_def)

text \<open>
  C4: in any run of the main loop the radio gate is locked and released in turn and never waited for
  by the thread that holds it; every scan, BLE session and call to the backend happens while it is
  held; the thread never sleeps on it; and every call carries the hub's token and id.
\<close>

theorem main_loop_orderly:
  "traced E (main_loop fake_probe hub jwt n) (\<lambda>tr _. orderly hub jwt tr)"
  by (rule traced_conseq [OF faithful_main_loop]) (simp add: faithful_def)

text \<open>The invariant of the command poller holds after any number of turns of the main loop.\<close>

theorem main_loop_invariant:
  "traced E (main_loop fake_probe hub jwt n) (\<lambda>_ p. poller_inv p)"
  by (rule traced_conseq [OF faithful_main_loop]) (simp add: faithful_def inv_empty_poller)

section \<open>A terminal result hides a dispatch\<close>

fun sent_report :: "event \<Rightarrow> bool" where
  "sent_report (AckRpc _ request _) = (ar_status request = StatusSentToProbe)"
| "sent_report _ = False"

lemma no_delivery: "\<not> delivered k []"
  by (simp add: delivered_def)

lemma unjustified_sends: "list_all (sent_justified []) tr \<Longrightarrow> count sent_report tr = 0"
proof (induction tr)
  case (Cons e tr)
  then show ?case by (cases e) (auto simp: no_delivery split: if_splits)
qed simp

lemma traced_handle_terminal:
  assumes "ps_last_motor_result s = Some r" "is_terminal r"
  shows "traced E (handle_session hub jwt s p) (\<lambda>tr q. pending q = pending p \<and> count sent_report tr = 0)"
proof -
  have step: "pending q = pending p \<and> count sent_report tr = 0"
    if "result_step hub jwt uuid r p tr q" for uuid tr q
    using result_step_pending [OF that] result_step_sends [OF that] unjustified_sends by blast
  have upload: "count sent_report tr = 0" if "upload_run jwt request ns tr ok" for request ns tr ok
    using upload_run_sends [OF that] by (rule unjustified_sends)
  show ?thesis
    unfolding handle_session_def Let_def assms(1) option.case
    using assms(2)
    by (intro traced_intro traced_conseq [OF traced_upload_reading]
        traced_conseq [OF traced_apply_probe_motor_result])
      (auto dest: step upload)
qed

text \<open>
  C40: a limit of the loop as it is written: when the last result a probe shows is terminal, also that
  of an earlier command, the result of the dispatch made in the same session is dropped. The command
  stays queued and no report of its delivery is made, although the probe may have acknowledged it.
\<close>

theorem terminal_result_hides_dispatch:
  assumes "ps_last_motor_result s = Some r" "is_terminal r"
  shows "traced E (handle_session hub jwt s p) (\<lambda>tr q. pending q = pending p \<and> count sent_report tr = 0)"
  using assms by (rule traced_handle_terminal)

definition sample_session :: probe_session_result where
  "sample_session = \<lparr>ps_reading = \<lparr>pb_probe_uuid = ''n'', pb_air_temperature_c = 20, pb_air_pressure_pa = 0,
     pb_air_humidity_pct = 50, pb_soil_temperature_c = 20, pb_soil_humidity_pct = 50, pb_timestamp = 1000\<rparr>,
   ps_motor_dispatch_result = Some (Inr ()), ps_last_motor_result = Some (sample_result 5)\<rparr>"

theorem terminal_result_hides_dispatch_witness:
  "pending (fst (run_state (handle_session ''h'' ''t'' sample_session
     (empty_poller\<lparr>pending := [sample_command ''b'' 5000]\<rparr>)) calm_world)) = [sample_command ''b'' 5000]"
proof -
  have "ps_last_motor_result sample_session = Some (sample_result 5)" "is_terminal (sample_result 5)"
    by (simp_all add: sample_session_def sample_result_def is_terminal_def)
  from traced_fresh (1) [OF terminal_result_hides_dispatch [OF this] calm_world_simps(2),
      of "''h''" "''t''" "empty_poller\<lparr>pending := [sample_command ''b'' 5000]\<rparr>"]
  show ?thesis by (simp add: empty_poller_def)
qed

section \<open>One poll per cycle\<close>

fun is_pull :: "event \<Rightarrow> bool" where
  "is_pull (PullRpc _ _ _) = True"
| "is_pull _ = False"

lemma offline_pulls: "list_all offline tr \<Longrightarrow> count is_pull tr = 0"
proof (induction tr)
  case (Cons e tr)
  then show ?case by (cases e) simp_all
qed simp

lemma ack_pulls: "ack_trace jwt request tr ok \<Longrightarrow> count is_pull tr = 0"
  by (auto simp: ack_trace_def exchange_def intro: offline_pulls failed_exchange_offline)

lemma store_steps_pulls: "store_steps E hub jwt cs p tr q \<Longrightarrow> count is_pull tr = 0"
  by (induction rule: store_steps.induct) (auto elim!: store_step.cases simp: ack_pulls)

lemma sweep_pulls: "sweep hub jwt cs d tr ks d' \<Longrightarrow> count is_pull tr = 0"
  by (induction rule: sweep.induct) (auto simp: ack_pulls)

lemma poll_step_pulls: "poll_step E hub jwt p tr q \<Longrightarrow> count is_pull tr \<le> 1"
  by (induction rule: poll_step.induct)
    (auto simp: sweep_pulls store_steps_pulls exchange_def offline_pulls failed_exchange_offline)

lemma result_step_pulls: "result_step hub jwt uuid r p tr q \<Longrightarrow> count is_pull tr = 0"
  by (induction rule: result_step.induct) (auto simp: ack_pulls)

lemma complete_step_pulls: "complete_step hub jwt uuid r p tr q \<Longrightarrow> count is_pull tr = 0"
  by (induction rule: complete_step.induct) (auto elim!: settleE simp: ack_pulls)

lemma upload_run_pulls: "upload_run jwt request ns tr ok \<Longrightarrow> count is_pull tr = 0"
  by (induction rule: upload_run.induct)
    (auto simp: upload_trace_def exchange_def offline_pulls failed_exchange_offline)

interpretation no_pull: trace_monoid "\<lambda>tr. count is_pull tr = 0"
  by unfold_locales simp_all

lemma handle_session_pulls: "traced E (handle_session hub jwt s p) (\<lambda>tr _. count is_pull tr = 0)"
  unfolding handle_session_def Let_def
  by (intro traced_intro traced_conseq [OF traced_upload_reading]
      traced_conseq [OF traced_apply_probe_motor_result] traced_conseq [OF traced_complete_dispatched])
    (auto dest: upload_run_pulls result_step_pulls complete_step_pulls)

lemma visit_candidate_pulls: "traced E (visit_candidate hub jwt c p) (\<lambda>tr _. count is_pull tr = 0)"
  unfolding visit_candidate_def run_with_radio_memory_gate_def
  by (intro traced_intro traced_with_gate traced_conseq [OF acknowledge_offline]
      traced_conseq [OF traced_session] traced_conseq [OF handle_session_pulls])
    (auto dest: session_offline offline_pulls)

lemma visits_pulls: "traced E (for_each cs (visit_candidate hub jwt) p) (\<lambda>tr _. count is_pull tr = 0)"
  by (rule no_pull.stateless.loop) (rule visit_candidate_pulls)

text \<open>The shape of a turn: work without a pull, then the poll, then the pause.\<close>

definition turn :: "env \<Rightarrow> string \<Rightarrow> string \<Rightarrow> history \<Rightarrow> poller \<Rightarrow> bool" where
  "turn E hub jwt tr q \<longleftrightarrow> (\<exists>work p polled. tr = work @ polled @ [SleepMs 30000] \<and>
     count is_pull work = 0 \<and> count is_pull polled \<le> 1 \<and> poll_step E hub jwt p polled q)"

lemma traced_poll_and_wait:
  assumes "count is_pull work = 0"
  shows "traced E (do {
      q \<leftarrow> poll_commands_in_quiet_window hub jwt p;
      _ \<leftarrow> emit (SleepMs (SCAN_WAIT_SECONDS * 1000));
      State_Monad.return q }) (\<lambda>tr. turn E hub jwt (work @ tr))"
proof -
  have "turn E hub jwt (work @ polled @ [SleepMs (SCAN_WAIT_SECONDS * 1000)]) q"
    if "poll_step E hub jwt p polled q" for polled q
    using assms poll_step_pulls [OF that] that unfolding turn_def SCAN_WAIT_SECONDS_def
    by (intro exI [of _ work] exI [of _ p] exI [of _ polled]) simp
  then show ?thesis
    unfolding poll_commands_in_quiet_window_def
    by (intro traced_intro traced_conseq [OF traced_poll_once]) simp
qed

lemma inject_fake_pulls: "traced E (inject_fake fake hub jwt) (\<lambda>tr _. count is_pull tr = 0)"
  unfolding inject_fake_def
  by (intro traced_intro traced_conseq [OF traced_upload_reading]) (auto dest: upload_run_pulls)

text \<open>
  C28: every turn of the main loop, whatever happens in it, polls for commands once, after all work
  with probes is done, with at most one pull, and then waits for thirty seconds.
\<close>

theorem cycle_polls_then_waits:
  "traced E (scan_cycle fake_probe hub jwt p) (turn E hub jwt)"
  unfolding scan_cycle_def run_with_radio_memory_gate_def
proof (rule traced_bind, rule traced_with_gate, rule traced_scan_probe_candidates, goal_cases)
  case (1 advs e)
  show ?case
    using traced_poll_and_wait [of "[GateLock, ScanRun advs (Inl e), GateUnlock]" E hub jwt p] by simp
next
  case (2 advs)
  let ?cs = "map (candidate_of advs) (first_heard advs)"
  let ?pre = "[GateLock, ScanRun advs (Inr ()), GateUnlock]"
  have work: "count is_pull (?pre @ a) = 0" if "count is_pull a = 0" for a
    using that by simp
  show ?case
    unfolding sum.case
  proof (rule traced_bind, rule traced_conseq [OF inject_fake_pulls], rule traced_if)
    fix a :: history assume a: "count is_pull a = 0"
    show "traced E (do {
        q \<leftarrow> poll_commands_in_quiet_window hub jwt p;
        _ \<leftarrow> emit (SleepMs (SCAN_WAIT_SECONDS * 1000));
        State_Monad.return q }) (\<lambda>tr. turn E hub jwt ((GateLock # [ScanRun advs (Inr ())] @ [GateUnlock]) @ a @ tr))"
      using traced_poll_and_wait [OF work [OF a], of E hub jwt p] by simp
  next
    fix a :: history assume a: "count is_pull a = 0"
    show "traced E (do {
        p \<leftarrow> for_each ?cs (visit_candidate hub jwt) p;
        q \<leftarrow> poll_commands_in_quiet_window hub jwt p;
        _ \<leftarrow> emit (SleepMs (SCAN_WAIT_SECONDS * 1000));
        State_Monad.return q }) (\<lambda>tr. turn E hub jwt ((GateLock # [ScanRun advs (Inr ())] @ [GateUnlock]) @ a @ tr))"
    proof (rule traced_bind, rule traced_conseq [OF visits_pulls])
      fix b :: history and q
      assume "count is_pull b = 0"
      with a have "count is_pull (a @ b) = 0" by simp
      from traced_poll_and_wait [OF work [OF this], of E hub jwt q]
      show "traced E (do {
          q \<leftarrow> poll_commands_in_quiet_window hub jwt q;
          _ \<leftarrow> emit (SleepMs (SCAN_WAIT_SECONDS * 1000));
          State_Monad.return q })
        (\<lambda>tr. turn E hub jwt ((GateLock # [ScanRun advs (Inr ())] @ [GateUnlock]) @ a @ b @ tr))"
        by simp
    qed
  qed
qed

end
