(* ===== verification/Boot.thy ===== *)
theory Boot
  imports Prov_Ends Main_Props
begin

text \<open>
  The whole of \<open>main\<close> (\<open>src/main.rs\<close>): drivers, stored credentials, connection or provisioning with a
  restart, the claim, and the main loop. Left out are \<open>link_patches\<close>, the logger, \<open>init_device\<close> (a library call
  without a result), and log output, which includes \<open>log_setup_probes\<close>.
\<close>

section \<open>Boot\<close>

text \<open>
  How a run of \<open>main\<close> stands: it returned an error, restarted the device, panicked, is still
  waiting for credentials, or is in the main loop.
\<close>

datatype boot_end = Returned error | Restarted | Panicked | Provisioning | Looping poller

definition take_drivers :: "unit res io" where
  "take_drivers =
     try_io (ask (\<lambda>E h. driver_at E h ''MountedEventfs::mount'') (Driver ''MountedEventfs::mount'')) (\<lambda>_.
     try_io (with_context ''take default NVS partition''
       (ask (\<lambda>E h. driver_at E h ''EspDefaultNvsPartition::take'') (Driver ''EspDefaultNvsPartition::take''))) (\<lambda>_.
     try_io wifi_init (\<lambda>_. State_Monad.return (Inr ()))))"

definition restart_after_successful_provisioning :: "provisioned_hub \<Rightarrow> boot_end io" where
  "restart_after_successful_provisioning hub = do {
     _ \<leftarrow> emit (SleepMs 500);
     _ \<leftarrow> emit EspRestart;
     State_Monad.return Restarted
   }"

definition provision_and_restart :: "build_env \<Rightarrow> nat \<Rightarrow> boot_end io" where
  "provision_and_restart build turns = do {
     ended \<leftarrow> wifi_prov_run (claim_hub_after_time_sync build) turns;
     case ended of
       None \<Rightarrow> State_Monad.return Provisioning
     | Some Panic \<Rightarrow> State_Monad.return Panicked
     | Some (Val (Inl e)) \<Rightarrow> State_Monad.return (Returned e)
     | Some (Val (Inr hub)) \<Rightarrow> restart_after_successful_provisioning hub
   }"

definition connect_at_boot :: "build_env \<Rightarrow> nat \<Rightarrow> (boot_end + wifi_credentials) io" where
  "connect_at_boot build turns = do {
     stored \<leftarrow> nvs_load;
     case stored of
       Some creds \<Rightarrow> do {
         connected \<leftarrow> wifi_connect (wc_ssid creds) (wc_password creds);
         case connected of
           Panic \<Rightarrow> State_Monad.return (Inl Panicked)
         | Val (Inr _) \<Rightarrow> State_Monad.return (Inr creds)
         | Val (Inl e) \<Rightarrow> do {
             ended \<leftarrow> provision_and_restart build turns;
             State_Monad.return (Inl ended)
           }
       }
     | None \<Rightarrow> do {
         ended \<leftarrow> provision_and_restart build turns;
         State_Monad.return (Inl ended)
       }
   }"

text \<open>The bounds are on the turns of the two loops: of provisioning, and of the main loop.\<close>

definition hub_main :: "build_env \<Rightarrow> bool \<Rightarrow> nat \<Rightarrow> nat \<Rightarrow> boot_end io" where
  "hub_main build fake_probe turns cycles = do {
     taken \<leftarrow> take_drivers;
     case taken of
       Inl e \<Rightarrow> State_Monad.return (Returned e)
     | Inr _ \<Rightarrow> do {
         connected \<leftarrow> connect_at_boot build turns;
         case connected of
           Inl ended \<Rightarrow> State_Monad.return ended
         | Inr wifi_creds \<Rightarrow> do {
             claimed \<leftarrow> claim_hub_after_time_sync build;
             case claimed of
               Inl e \<Rightarrow> State_Monad.return (Returned e)
             | Inr (hub_device_id, jwt) \<Rightarrow> do {
                 command_poller \<leftarrow> main_loop fake_probe hub_device_id jwt cycles;
                 State_Monad.return (Looping command_poller)
               }
           }
       }
   }"

end
