(* ===== verification/Boot_Props.thy ===== *)
theory Boot_Props
  imports Boot
begin

text \<open>
  What a boot comes to: the invariant of the flash through provisioning, and the state of things
  when the main loop is reached or the device restarts.
\<close>

section \<open>The flash during provisioning\<close>

text \<open>Programs that make no call into the flash leave its contents as they are.\<close>

lemma ends_no_flash:
  assumes "traced E m (\<lambda>tr _. no_flash tr)" "traced E m Q" "held c I h"
    and "\<And>tr r. no_flash tr \<Longrightarrow> Q tr r \<Longrightarrow> held c I (h @ tr) \<Longrightarrow>
      contents c (h @ tr) = contents c h \<Longrightarrow> R (h @ tr) r"
  shows "ends E h m R"
  by (rule ends_traced [OF traced_conj [OF assms(1,2)]])
    (use assms(3,4) no_flash_held in \<open>simp add: no_flash_contents\<close>)

lemma finish_no_flash: "traced E (finish_provisioning creds d jwt) (\<lambda>tr _. no_flash tr)"
  unfolding finish_provisioning_def notify_status_def set_status_def set_value_def Let_def
  by (intro no_flash.bind traced_conseq [OF discover_no_flash] traced_conseq [OF acknowledge_db_no_flash]
      traced_emit traced_return) simp_all

lemma connect_attempts_no_flash: "traced E (connect_attempts m xs e) (\<lambda>tr _. no_flash tr)"
proof (induction xs arbitrary: e)
  case Nil
  show ?case by (simp, intro traced_intro) simp
next
  case (Cons x xs)
  show ?case
    unfolding connect_attempts.simps
    by (intro traced_bind traced_wifi_ask traced_case_sum traced_get_address traced_return traced_if traced_emit)
      (auto intro!: traced_conseq [OF Cons])
qed

lemma connect_no_flash: "traced E (connect_with_attempts ssid password m) (\<lambda>tr _. no_flash tr)"
  unfolding connect_with_attempts_def Let_def
  by (intro traced_intro)
    (auto intro!: traced_intro traced_conseq [OF connect_attempts_no_flash] simp del: upt_Suc split: sum.splits)


section \<open>What a boot leaves in the flash\<close>

lemma ends_trace:
  assumes "ends E h m P" "traced E m T" "\<And>tr r. P (h @ tr) r \<Longrightarrow> T tr r \<Longrightarrow> Q (h @ tr) r"
  shows "ends E h m Q"
proof -
  have "ends E h m (\<lambda>h' r. \<exists>tr. h' = h @ tr \<and> T tr r)"
    by (rule ends_traced [OF assms(2)]) blast
  from ends_conj [OF assms(1) this] show ?thesis
    by (rule ends_conseq) (use assms(3) in blast)
qed

text \<open>The flash holds this token, and this id beside some secret.\<close>

abbreviation credentialed :: "contents \<Rightarrow> history \<Rightarrow> string \<Rightarrow> string \<Rightarrow> bool" where
  "credentialed c h d t \<equiv> secured (contents c h) (d, t)"

text \<open>The flash holds these Wi-Fi credentials; writing to it works.\<close>

definition stored :: "contents \<Rightarrow> history \<Rightarrow> wifi_credentials \<Rightarrow> bool" where
  "stored c h creds \<longleftrightarrow> contents c h ssid_at = {Some (wc_ssid creds)} \<and> contents c h password_at = {Some (wc_password creds)}"

definition flash_writes :: "env \<Rightarrow> bool" where
  "flash_writes E \<longleftrightarrow> flash_reliable E \<and> (\<forall>h ns key v. nvs_set_str_at (flash_of E) h ns key v = Inr ())"

lemma provisioned_credentialed:
  "provisioned E pairs build c h h' (Inr (d, t)) \<Longrightarrow> credentialed c h' d t"
  by (simp add: provisioned_def secured_def)

lemma provisioned_held: "provisioned E pairs build c h h' r \<Longrightarrow> held c (issued pairs) h'"
  by (simp add: provisioned_def)

lemma issued_ignores_wifi [simp]: "issued pairs (c(l := vs)) = issued pairs c" if "fst l = NVS_NAMESPACE"
  using that by (cases l) (auto simp: issued_def)

lemma ends_nvs_save_held:
  assumes "held c (issued pairs) h"
  shows "ends E h (nvs_save creds) (\<lambda>h' _. held c (issued pairs) h' \<and> (flash_writes E \<longrightarrow> stored c h' creds))"
proof -
  have ok: "returns E (nvs_save creds)" if "flash_writes E"
  proof -
    have "returns E (nvs_set_str ns key v)" for ns key v
      unfolding nvs_set_str_def by (rule returns_ask) (use that in \<open>simp add: flash_writes_def\<close>)
    moreover have "returns E (nvs_open ns rw)" for ns rw
      using that by (intro returns_open) (simp add: flash_writes_def)
    ultimately show ?thesis
      unfolding nvs_save_def open_nvs_def by (intro returns_try returns_return) auto
  qed
  have saved: "ends E h (nvs_save creds) (\<lambda>h' _. stored c h' creds)" if "flash_writes E"
    by (rule ends_trace [OF ends_nvs_save [where c = c] ok [OF that, unfolded returns_def]]) (auto simp: stored_def)
  have set: "ends E h' (nvs_set_str NVS_NAMESPACE key v) (\<lambda>h'' _. held c (issued pairs) h'')"
    if "held c (issued pairs) h'" for h' key v
    by (rule ends_conseq [OF ends_nvs_set_str [where c = c and I = "issued pairs"]])
      (use that held_now [OF that] in auto)
  have h: "ends E h (nvs_save creds) (\<lambda>h' _. held c (issued pairs) h')"
    unfolding nvs_save_def open_nvs_def
    by (intro ends_try, rule ends_conseq [OF ends_nvs_open [OF assms]])
      (auto split: sum.splits intro!: ends_try ends_return ends_conseq [OF set])
  show ?thesis
  proof (cases "flash_writes E")
    case True
    from ends_conj [OF h saved [OF this]] True show ?thesis by simp
  qed (use h in simp)
qed

lemma res_option_cases:
  obtains e where "r = Inl e" | "r = Inr None" | v where "r = Inr (Some v)"
  by (cases r) (auto intro: option.exhaust)

lemma ends_nvs_load_held:
  assumes "flash_faithful E c" "held c (issued pairs) h"
  shows "ends E h nvs_load (\<lambda>h' r. held c (issued pairs) h' \<and>
    (case r of Some creds \<Rightarrow> Some (wc_ssid creds) \<in> contents c h ssid_at \<and>
       Some (wc_password creds) \<in> contents c h password_at | None \<Rightarrow> True))"
  unfolding nvs_load_def open_nvs_def
proof (rule ends_bind, rule ends_conseq [OF ends_nvs_open [OF assms(2)]], goal_cases)
  case (1 h1 r)
  note read = nvs_store.finds [OF assms(1) stable_issued]
  show ?case
  proof (cases r)
    case (Inr ns)
    with 1 have h1: "held c (issued pairs) h1" "contents c h1 = contents c h" and ns: "ns = NVS_NAMESPACE" by simp_all
    show ?thesis
      unfolding Inr sum.case ns
    proof (rule ends_bind, rule ends_conseq [OF read [OF h1(1)]], goal_cases)
      case (1 h2 ssid)
      note found = 1
      show ?case
      proof (cases ssid)
        case (Inr v)
        with 1 have h2: "held c (issued pairs) h2" by simp
        show ?thesis
        proof (cases v)
          case (Some s)
          show ?thesis
            unfolding Inr Some sum.case option.case
          proof (rule ends_bind, rule ends_conseq [OF read [OF h2]], goal_cases)
            case (1 h3 pass)
            have "contents c h2 password_at = contents c h password_at" "Some s \<in> contents c h ssid_at"
              using found Inr Some h1(2) by simp_all
            with 1 show ?case
              by (cases pass rule: res_option_cases) (simp_all add: ends_return)
          qed
        qed (use found Inr in \<open>auto intro!: ends_return\<close>)
      qed (use found in \<open>auto intro!: ends_return\<close>)
    qed
  qed (use 1 in \<open>simp add: ends_return\<close>)
qed

section \<open>Provisioning keeps the identity\<close>

definition run_credentialed :: "env \<Rightarrow> (string \<times> string) set \<Rightarrow> contents \<Rightarrow> history \<Rightarrow> provisioned_hub res rs option \<Rightarrow> bool" where
  "run_credentialed E pairs c h r \<longleftrightarrow> held c (issued pairs) h \<and>
     (case r of
        Some (Val (Inr hub)) \<Rightarrow> credentialed c h (ph_hub_device_id hub) (ph_jwt hub) \<and>
          (flash_writes E \<longrightarrow> stored c h (ph_credentials hub))
      | _ \<Rightarrow> True)"

lemma run_held: "run_credentialed E pairs c h r \<Longrightarrow> held c (issued pairs) h"
  by (simp add: run_credentialed_def)

lemma ends_finish:
  assumes "held c (issued pairs) h" "credentialed c h d t" "flash_writes E \<longrightarrow> stored c h creds"
  shows "ends E h (finish_provisioning creds d t) (run_credentialed E pairs c)"
proof (rule ends_no_flash [OF finish_no_flash traced_walks_finish [where said = "([], None)"] assms(1)], elim exE conjE)
  fix tr y probes and r :: "provisioned_hub res rs option" assume "held c (issued pairs) (h @ tr)" and same: "contents c (h @ tr) = contents c h"
    and r: "r = Some (Val (Inr \<lparr>ph_credentials = creds, ph_hub_device_id = d, ph_jwt = t, ph_setup_probes = probes\<rparr>))"
  moreover have "credentialed c (h @ tr) d t" "flash_writes E \<longrightarrow> stored c (h @ tr) creds"
    using assms(2,3) unfolding secured_def stored_def same .
  ultimately show "run_credentialed E pairs c (h @ tr) r"
    by (simp add: run_credentialed_def)
qed

lemma status_no_flash:
  "traced E (notify_status s) (\<lambda>tr _. no_flash tr)" "traced E (set_status s) (\<lambda>tr _. no_flash tr)"
  "traced E advertise (\<lambda>tr _. no_flash tr)"
  unfolding notify_status_def set_status_def set_value_def advertise_def
  by (intro traced_intro; auto intro!: traced_intro split: sum.splits)+

lemma claim_failed_no_flash: "traced E claim_failed (\<lambda>tr r. no_flash tr \<and> r = None)"
  unfolding claim_failed_def
  by (intro traced_bind traced_conseq [OF status_no_flash(1)] traced_conseq [OF status_no_flash(2)] traced_emit traced_return) simp

lemma wifi_nok_no_flash:
  "traced E wifi_nok (\<lambda>tr r. no_flash tr \<and> (case r of Some (Val (Inr hub)) \<Rightarrow> False | _ \<Rightarrow> True))"
  unfolding wifi_nok_def
  by (intro traced_bind traced_conseq [OF status_no_flash(1)] traced_conseq [OF status_no_flash(2)]
    traced_conseq [OF status_no_flash(3)] traced_emit traced_return) (simp split: sum.splits)


lemma ends_aside:
  assumes "traced E m (\<lambda>tr r. no_flash tr \<and> Q r)" "held c I h"
    and "\<And>h' r. held c I h' \<Longrightarrow> contents c h' = contents c h \<Longrightarrow> Q r \<Longrightarrow> R h' r"
  shows "ends E h m R"
  by (rule ends_traced [OF assms(1)]) (use assms(2,3) no_flash_held in \<open>simp add: no_flash_contents\<close>)

lemma aside: "traced E m (\<lambda>tr _. no_flash tr) \<Longrightarrow> traced E m (\<lambda>tr r. no_flash tr \<and> True)"
  by simp

lemma sleep_no_flash: "traced E (emit (SleepMs n)) (\<lambda>tr _. no_flash tr)"
  by (rule traced_emit) simp

lemma no_flash_touches: "\<not> is_flash e \<Longrightarrow> \<not> touches l e"
  by (cases "(l, e)" rule: touches.cases) auto

text \<open>The claim and what surrounds it leave the other namespace alone.\<close>

lemma hub_operations_away:
  "traced E (load_or_generate_creds build) (\<lambda>tr _. away (NVS_NAMESPACE, key) tr)"
  "traced E read_hub_jwt (\<lambda>tr _. away (NVS_NAMESPACE, key) tr)"
  "traced E (write_hub_jwt jwt) (\<lambda>tr _. away (NVS_NAMESPACE, key) tr)"
  unfolding load_or_generate_creds_def read_hub_jwt_def write_hub_jwt_def flash_calls Let_def
  by (auto intro!: traced_intro split: sum.splits option.splits)

interpretation away: trace_monoid "away l" for l
  by unfold_locales simp_all

lemma claim_away_wifi:
  "traced E (claim_hub_after_time_sync build) (\<lambda>tr _. away (NVS_NAMESPACE, key) tr)"
proof -
  let ?l = "(NVS_NAMESPACE, key)"
  note parts = hub_operations_away [where key = key]
  have seed: "traced E (seed_jwt_from_env t) (\<lambda>tr _. away ?l tr)" for t
    unfolding seed_jwt_from_env_def
    by (rule traced_try, rule traced_conseq [OF parts(2)])
      (auto intro!: traced_intro traced_conseq [OF parts(3)] split: sum.splits)
  have sntp: "traced E get_sync_sntp (\<lambda>tr _. away ?l tr)"
  proof (rule traced_conseq [OF sntp_no_flash])
    show "no_flash tr \<and> claims tr = [] \<Longrightarrow> away ?l tr" for tr
      by (induction tr) (auto simp: no_flash_touches no_flash_def away_def list_all_iff)
  qed
  show ?thesis
    unfolding claim_hub_after_time_sync_def provision_hub_def claim_hub_token_def
    by (rule traced_try, rule traced_conseq [OF sntp])
      (auto intro!: traced_intro traced_conseq [OF parts(1)] traced_conseq [OF parts(2)]
        traced_conseq [OF parts(3)] traced_conseq [OF seed] split: sum.splits option.splits)
qed

lemma ends_wifi_ok:
  assumes f: "flash_faithful E c" and held: "held c (issued pairs) h"
    and pair: "(BUILD_DEVICE_ID build, BUILD_HUB_SECRET build) \<in> pairs"
  shows "ends E h (wifi_ok (claim_hub_after_time_sync build) creds) (run_credentialed E pairs c)"
  unfolding wifi_ok_def
proof (rule ends_bind, rule ends_aside [OF aside [OF status_no_flash(1)] held],
    rule ends_bind, rule ends_aside [OF aside [OF sleep_no_flash]], assumption,
    rule ends_bind, rule ends_conseq [OF ends_nvs_save_held], assumption, elim conjE,
    rule ends_bind, rule ends_trace [OF ends_claim_hub [OF f _ pair] traced_conj [OF claim_away_wifi [where key = KEY_SSID] claim_away_wifi [where key = KEY_PASS]]], assumption, goal_cases)
  case (1 h1 _ h2 _ h3 _ tr4 r)
  let ?h4 = "h3 @ tr4"
  have claimed: "provisioned E pairs build c h3 ?h4 r" and away: "away ssid_at tr4" "away password_at tr4"
    and before: "flash_writes E \<longrightarrow> stored c h3 creds"
    using 1 by blast+
  have saved: "flash_writes E \<longrightarrow> stored c ?h4 creds"
    using before unfolding stored_def away_contents [OF away(1)] away_contents [OF away(2)] .
  from provisioned_held [OF claimed] have h4: "held c (issued pairs) ?h4" .
  show ?case
  proof (cases r)
    case (Inl e)
    show ?thesis
      unfolding Inl sum.case
      by (rule ends_aside [OF claim_failed_no_flash h4]) (simp add: run_credentialed_def)
  next
    case (Inr p)
    obtain d t where p: "p = (d, t)" by fastforce
    show ?thesis
      unfolding Inr p sum.case prod.case
      by (rule ends_finish [OF h4 _ saved]) (use claimed Inr p provisioned_credentialed in blast)
  qed
qed

lemma ends_try_credentials:
  assumes f: "flash_faithful E c" and held: "held c (issued pairs) h"
    and pair: "(BUILD_DEVICE_ID build, BUILD_HUB_SECRET build) \<in> pairs"
  shows "ends E h (try_credentials (claim_hub_after_time_sync build) creds) (run_credentialed E pairs c)"
  unfolding try_credentials_def connect_for_provisioning_def
proof (rule ends_bind, rule ends_aside [OF aside [OF connect_no_flash] held], goal_cases)
  case (1 h1 r)
  have nok: "ends E h1 wifi_nok (run_credentialed E pairs c)"
    by (rule ends_aside [OF wifi_nok_no_flash 1(1)])
      (auto simp: run_credentialed_def split: option.splits rs.splits sum.splits)
  have "run_credentialed E pairs c h1 (Some Panic)" using 1(1) by (simp add: run_credentialed_def)
  with nok ends_wifi_ok [OF f 1(1) pair] show ?case
    by (cases r) (auto intro: ends_return split: sum.splits)
qed

lemma ends_prov_turns:
  assumes f: "flash_faithful E c" and pair: "(BUILD_DEVICE_ID build, BUILD_HUB_SECRET build) \<in> pairs"
    and "held c (issued pairs) h"
  shows "ends E h (prov_turns (claim_hub_after_time_sync build) n p) (run_credentialed E pairs c)"
  using assms(3)
proof (induction n arbitrary: h p)
  case 0
  then show ?case by (simp add: ends_return run_credentialed_def)
next
  case (Suc n)
  have rest: "ends E h' (case ended of Some r \<Rightarrow> State_Monad.return (Some r)
     | None \<Rightarrow> prov_turns (claim_hub_after_time_sync build) n p') (run_credentialed E pairs c)"
    if "run_credentialed E pairs c h' ended" for h' ended p'
    using that Suc.IH run_held [OF that] by (cases ended) (auto intro: ends_return)
  have looked: "ends E h' (case state of
         Complete creds \<Rightarrow> try_credentials (claim_hub_after_time_sync build) creds
       | WaitingForPassword ssid \<Rightarrow> State_Monad.return None
       | WaitingForSsid \<Rightarrow> State_Monad.return None
       | Empty \<Rightarrow> State_Monad.return None) (run_credentialed E pairs c)"
    if "held c (issued pairs) h'" for h' state
    using that by (cases state) (auto intro: ends_return ends_try_credentials [OF f _ pair] simp: run_credentialed_def)
  have writes: "traced E (ask (\<lambda>E h. client_writes_at (gatt_of E) h) (\<lambda>ws. Gatt (ClientWrites ws))) (\<lambda>tr _. no_flash tr)"
    by (rule traced_ask) simp
  show ?case
    unfolding prov_turns.simps
    by (rule ends_bind, rule ends_aside [OF aside [OF sleep_no_flash] Suc.prems],
        rule ends_bind, rule ends_aside [OF aside [OF writes]], assumption,
        intro ends_Let ends_case_prod ends_bind ends_conseq [OF looked] rest)
qed

lemma ends_wifi_prov_run:
  assumes f: "flash_faithful E c" and held: "held c (issued pairs) h"
    and pair: "(BUILD_DEVICE_ID build, BUILD_HUB_SECRET build) \<in> pairs"
  shows "ends E h (wifi_prov_run (claim_hub_after_time_sync build) n) (run_credentialed E pairs c)"
proof -
  have create: "traced E create_characteristics (\<lambda>tr _. no_flash tr)"
    unfolding create_characteristics_def set_status_def set_value_def by (intro traced_intro) simp
  show ?thesis
    unfolding wifi_prov_run_def
    by (rule ends_bind, rule ends_aside [OF aside [OF create] held],
        rule ends_bind, rule ends_aside [OF aside [OF status_no_flash(3)]], assumption, rule ends_case_sum)
      (simp_all add: ends_return run_credentialed_def ends_prov_turns [OF f pair])
qed


section \<open>What a boot comes to\<close>

text \<open>
  The network was joined with credentials from the flash, the radio stayed on, and the clock
  was synchronised after that.
\<close>

definition online :: "contents \<Rightarrow> history \<Rightarrow> history \<Rightarrow> bool" where
  "online c h boot \<longleftrightarrow> (\<exists>ssid password pre mid post. boot = pre @ mid @ post \<and>
     Some ssid \<in> contents c h ssid_at \<and> Some password \<in> contents c h password_at \<and>
     joined ssid password mid \<and> powered True post \<and> SntpStatus SyncCompleted \<in> set post)"

lemma inert_powered: "inert_tr tr \<Longrightarrow> powered on tr = on"
proof (induction tr)
  case (Cons e tr)
  then show ?case by (cases e) simp_all
qed simp

lemma claim_synced:
  "traced E (claim_hub_after_time_sync build)
     (\<lambda>tr r. case r of Inr _ \<Rightarrow> SntpStatus SyncCompleted \<in> set tr | Inl _ \<Rightarrow> True)"
  unfolding claim_hub_after_time_sync_def
proof (rule traced_try, rule traced_conseq [OF traced_get_sync_sntp], goal_cases)
  case (1 tr r)
  then show ?case
    by (cases r) (auto intro!: traced_conseq [OF provision_total] simp: synced_after_def split: sum.splits)
qed

lemma drivers_no_flash: "traced E take_drivers (\<lambda>tr _. no_flash tr)"
  unfolding take_drivers_def wifi_init_def
  by (intro traced_intro) (auto intro!: traced_intro split: sum.splits)

definition settled :: "env \<Rightarrow> (string \<times> string) set \<Rightarrow> contents \<Rightarrow> history \<Rightarrow> boot_end \<Rightarrow> bool" where
  "settled E pairs c h' r \<longleftrightarrow> held c (issued pairs) h' \<and>
     (case r of
        Looping p \<Rightarrow> False
      | Restarted \<Rightarrow> (\<exists>h. h' = h @ [SleepMs 500, EspRestart]) \<and> (\<exists>d t. credentialed c h' d t) \<and>
          (flash_writes E \<longrightarrow> (\<exists>creds. stored c h' creds))
      | Panicked \<Rightarrow> False
      | _ \<Rightarrow> True)"

text \<open>No panic during provisioning.\<close>

lemma run_no_panic:
  "traced E (wifi_prov_run (claim_hub_after_time_sync build) n) (\<lambda>_ r. r \<noteq> Some Panic)"
  by (rule traced_conseq [OF run_walks [OF claim_tells_token]]) (auto simp: turn_result_def)

lemma ends_provision_and_restart:
  assumes f: "flash_faithful E c" and held: "held c (issued pairs) h"
    and pair: "(BUILD_DEVICE_ID build, BUILD_HUB_SECRET build) \<in> pairs"
  shows "ends E h (provision_and_restart build n) (settled E pairs c)"
  unfolding provision_and_restart_def
proof (rule ends_bind, rule ends_trace [OF ends_wifi_prov_run [OF f held pair] run_no_panic])
  fix tr r assume run: "run_credentialed E pairs c (h @ tr) r" and no: "r \<noteq> Some Panic"
  note h1 = run_held [OF run]
  have restart: "ends E (h @ tr) (restart_after_successful_provisioning hub) (settled E pairs c)"
    if "credentialed c (h @ tr) d t" "flash_writes E \<longrightarrow> stored c (h @ tr) (ph_credentials hub)" for hub d t
    unfolding restart_after_successful_provisioning_def
  proof (intro ends_bind ends_emit ends_return)
    let ?h = "((h @ tr) @ [SleepMs 500]) @ [EspRestart]"
    have same: "contents c ?h = contents c (h @ tr)" by simp
    have "credentialed c ?h d t" "flash_writes E \<longrightarrow> stored c ?h (ph_credentials hub)"
      using that unfolding secured_def stored_def same .
    moreover have "held c (issued pairs) ?h"
      using no_flash_held [OF _ h1, of "[SleepMs 500, EspRestart]"] by simp
    moreover have "?h = (h @ tr) @ [SleepMs 500, EspRestart]" by simp
    ultimately show "settled E pairs c ?h Restarted"
      unfolding settled_def boot_end.case by blast
  qed
  show "ends E (h @ tr) (case r of
       None \<Rightarrow> State_Monad.return Provisioning
     | Some Panic \<Rightarrow> State_Monad.return Panicked
     | Some (Val (Inl e)) \<Rightarrow> State_Monad.return (Returned e)
     | Some (Val (Inr hub)) \<Rightarrow> restart_after_successful_provisioning hub) (settled E pairs c)"
    using run no h1 restart
    by (auto simp: run_credentialed_def settled_def intro!: ends_return split: option.split rs.split sum.split)
qed


definition boot_outcome ::
  "env \<Rightarrow> (string \<times> string) set \<Rightarrow> contents \<Rightarrow> history \<Rightarrow> history \<Rightarrow> boot_end \<Rightarrow> bool" where
  "boot_outcome E pairs c h h' r \<longleftrightarrow>
     (case r of
        Looping p \<Rightarrow> \<exists>boot loop d t. h' = h @ boot @ loop \<and> online c h boot \<and>
          held c (issued pairs) (h @ boot) \<and> credentialed c (h @ boot) d t \<and>
          orderly d t loop \<and> sends_ok [] loop \<and> poller_inv p
      | _ \<Rightarrow> settled E pairs c h' r)"

lemma looping_outcome:
  assumes "h' = h @ boot @ loop" "online c h boot" "held c (issued pairs) (h @ boot)"
    "credentialed c (h @ boot) d t" "orderly d t loop" "sends_ok [] loop" "poller_inv p"
  shows "boot_outcome E pairs c h h' (Looping p)"
  using assms unfolding boot_outcome_def boot_end.case by blast

lemma settled_outcome: "settled E pairs c h' r \<Longrightarrow> boot_outcome E pairs c h h' r"
  by (cases r) (simp_all add: boot_outcome_def settled_def)

lemma settled_returned: "held c (issued pairs) h' \<Longrightarrow> settled E pairs c h' (Returned e)"
  by (simp add: settled_def)

text \<open>Connecting: the network was joined with what the flash held, or the boot has ended.\<close>

definition connected_by :: "env \<Rightarrow> (string \<times> string) set \<Rightarrow> contents \<Rightarrow> history \<Rightarrow> history \<Rightarrow> boot_end + wifi_credentials \<Rightarrow> bool" where
  "connected_by E pairs c h h' r \<longleftrightarrow> (case r of
     Inl ended \<Rightarrow> settled E pairs c h' ended
   | Inr creds \<Rightarrow> held c (issued pairs) h' \<and>
       (\<exists>pre mid. h' = h @ pre @ mid \<and> joined (wc_ssid creds) (wc_password creds) mid) \<and>
       Some (wc_ssid creds) \<in> contents c h ssid_at \<and> Some (wc_password creds) \<in> contents c h password_at)"

lemma ends_extends:
  assumes "ends E h m Q"
  shows "ends E h m (\<lambda>h' r. Q h' r \<and> (\<exists>tr. h' = h @ tr))"
  using assms unfolding ends_def by blast

lemma ends_connect_at_boot:
  assumes f: "flash_faithful E c" and held: "held c (issued pairs) h"
    and pair: "(BUILD_DEVICE_ID build, BUILD_HUB_SECRET build) \<in> pairs"
  shows "ends E h (connect_at_boot build n) (connected_by E pairs c h)"
  unfolding connect_at_boot_def
proof (rule ends_bind, rule ends_conseq [OF ends_extends [OF ends_nvs_load_held [OF f held]]], elim conjE exE)
  fix h1 tr1 and stored :: "wifi_credentials option"
  assume h1: "held c (issued pairs) h1" and tr1: "h1 = h @ tr1"
    and found: "case stored of Some creds \<Rightarrow> Some (wc_ssid creds) \<in> contents c h ssid_at \<and>
       Some (wc_password creds) \<in> contents c h password_at | None \<Rightarrow> True"
  have prov: "ends E h' (do { ended \<leftarrow> provision_and_restart build n; State_Monad.return (Inl ended) })
      (connected_by E pairs c h)" if "held c (issued pairs) h'" for h'
    by (rule ends_bind, rule ends_conseq [OF ends_provision_and_restart [OF f that pair]])
      (simp add: ends_return connected_by_def)
  show "ends E h1 (case stored of
       Some creds \<Rightarrow> do {
         connected \<leftarrow> wifi_connect (wc_ssid creds) (wc_password creds);
         case connected of
           Panic \<Rightarrow> State_Monad.return (Inl Panicked)
         | Val (Inr _) \<Rightarrow> State_Monad.return (Inr creds)
         | Val (Inl e) \<Rightarrow> do { ended \<leftarrow> provision_and_restart build n; State_Monad.return (Inl ended) }
       }
     | None \<Rightarrow> do { ended \<leftarrow> provision_and_restart build n; State_Monad.return (Inl ended) })
     (connected_by E pairs c h)"
  proof (cases stored)
    case None
    with prov [OF h1] show ?thesis by simp
  next
    case (Some creds)
    have five: "traced E (wifi_connect s p) (wifi_outcome s p 5)" for s p
      unfolding wifi_connect_def using traced_connect_with_attempts [of 5 E s p] by simp
    have quiet: "traced E (wifi_connect s p) (\<lambda>tr _. no_flash tr)" for s p
      unfolding wifi_connect_def by (rule connect_no_flash)
    show ?thesis
      unfolding Some option.case
    proof (rule ends_bind, rule ends_no_flash [OF quiet five h1])
      fix tr r assume out: "wifi_outcome (wc_ssid creds) (wc_password creds) 5 tr r" and I: "held c (issued pairs) (h1 @ tr)"
      have last: "joined s p tr \<Longrightarrow> \<exists>pre mid. tr1 @ tr = pre @ mid \<and> joined s p mid" for s p
        by blast
      show "ends E (h1 @ tr) (case r of
           Panic \<Rightarrow> State_Monad.return (Inl Panicked)
         | Val (Inr _) \<Rightarrow> State_Monad.return (Inr creds)
         | Val (Inl e) \<Rightarrow> do { ended \<leftarrow> provision_and_restart build n; State_Monad.return (Inl ended) })
         (connected_by E pairs c h)"
        using out found Some I prov [OF I] tr1 last
        by (auto simp: wifi_outcome_def connected_by_def intro!: ends_return split: rs.split sum.split)
    qed
  qed
qed


lemma ends_claim_and_loop:
  assumes f: "flash_faithful E c" and pair: "(BUILD_DEVICE_ID build, BUILD_HUB_SECRET build) \<in> pairs"
    and conn: "connected_by E pairs c h (h @ pre) (Inr creds)"
  shows "ends E (h @ pre) (do {
       claimed \<leftarrow> claim_hub_after_time_sync build;
       case claimed of
         Inl e \<Rightarrow> State_Monad.return (Returned e)
       | Inr (hub_device_id, jwt) \<Rightarrow> do {
           command_poller \<leftarrow> main_loop fake_probe hub_device_id jwt cycles;
           State_Monad.return (Looping command_poller)
         } }) (boot_outcome E pairs c h)"
proof (rule ends_bind, rule ends_trace [OF ends_claim_hub [OF f _ pair] traced_conj [OF claim_inert claim_synced]])
  from conn show held: "held c (issued pairs) (h @ pre)" by (simp add: connected_by_def)
  fix tr and r :: "(string \<times> string) res"
  assume prov: "provisioned E pairs build c (h @ pre) ((h @ pre) @ tr) r"
    and tr: "inert_tr tr \<and> (case r of Inr _ \<Rightarrow> SntpStatus SyncCompleted \<in> set tr | Inl _ \<Rightarrow> True)"
  from provisioned_held [OF prov] have h1: "held c (issued pairs) (h @ pre @ tr)" by simp
  show "ends E ((h @ pre) @ tr) (case r of
         Inl e \<Rightarrow> State_Monad.return (Returned e)
       | Inr (hub_device_id, jwt) \<Rightarrow> do {
           command_poller \<leftarrow> main_loop fake_probe hub_device_id jwt cycles;
           State_Monad.return (Looping command_poller)
         }) (boot_outcome E pairs c h)"
  proof (cases r)
    case (Inl e)
    with h1 show ?thesis by (simp add: ends_return settled_outcome settled_returned)
  next
    case (Inr p)
    obtain d t where p: "p = (d, t)" by fastforce
    from prov have cred: "credentialed c (h @ pre @ tr) d t"
      using provisioned_credentialed Inr p by fastforce
    from conn obtain a mid where m: "pre = a @ mid" "joined (wc_ssid creds) (wc_password creds) mid"
      "Some (wc_ssid creds) \<in> contents c h ssid_at" "Some (wc_password creds) \<in> contents c h password_at"
      by (auto simp: connected_by_def)
    from tr Inr have post: "powered True tr" "SntpStatus SyncCompleted \<in> set tr" by (simp_all add: inert_powered)
    have "pre @ tr = a @ mid @ tr" using m(1) by simp
    then have on: "online c h (pre @ tr)"
      unfolding online_def using m(2-4) post by blast
    show ?thesis
      unfolding Inr p sum.case prod.case
    proof (rule ends_bind, rule ends_traced [OF faithful_main_loop], rule ends_return)
      fix loop q assume "faithful d t empty_poller loop q"
      then have "orderly d t loop \<and> sends_ok [] loop \<and> poller_inv q"
        by (simp add: faithful_def inv_empty_poller)
      with on h1 cred show "boot_outcome E pairs c h (((h @ pre) @ tr) @ loop) (Looping q)"
        by (intro looping_outcome [where boot = "pre @ tr" and loop = loop and d = d and t = t]) simp_all
    qed
  qed
qed

lemma boot_outcome_later:
  assumes "contents c (h @ tr) = contents c h" "boot_outcome E pairs c (h @ tr) h' r"
  shows "boot_outcome E pairs c h h' r"
proof (cases r)
  case (Looping p)
  with assms(2) obtain boot loop d t where l: "h' = (h @ tr) @ boot @ loop" "online c (h @ tr) boot"
    "held c (issued pairs) ((h @ tr) @ boot)" "credentialed c ((h @ tr) @ boot) d t"
    "orderly d t loop" "sends_ok [] loop" "poller_inv p"
    by (auto simp: boot_outcome_def)
  from l(2) obtain s w pre mid post where o: "boot = pre @ mid @ post"
    "Some s \<in> contents c h ssid_at" "Some w \<in> contents c h password_at"
    "joined s w mid" "powered True post" "SntpStatus SyncCompleted \<in> set post"
    unfolding online_def assms(1) by blast
  have "online c h (tr @ boot)"
    unfolding online_def
    by (rule exI [of _ s], rule exI [of _ w], rule exI [of _ "tr @ pre"], rule exI [of _ mid], rule exI [of _ post])
      (use o in simp)
  with l show ?thesis
    unfolding Looping
    by (intro looping_outcome [where boot = "tr @ boot" and loop = loop and d = d and t = t]) simp_all
qed (use assms(2) in \<open>simp_all add: boot_outcome_def\<close>)

text \<open>
  C1: a boot of the hub. Whatever the drivers, the flash, the phone, the network and the backend
  do: if the main loop is reached, the network was joined with credentials the flash held, the radio
  stayed on, the clock was synchronised, the flash holds the token and the identity in use, and the loop
  uses the radio and the credentials properly and justifies its reports. A boot that restarts the
  device does so last and leaves token and identity in the flash. Nothing panics, and no moment mixes identities.
\<close>

theorem hub_main_outcome:
  assumes "flash_faithful E c" and "held c (issued pairs) h"
    and "(BUILD_DEVICE_ID build, BUILD_HUB_SECRET build) \<in> pairs"
  shows "ends E h (hub_main build fake_probe turns cycles) (boot_outcome E pairs c h)"
  unfolding hub_main_def
proof (rule ends_bind, rule ends_no_flash [OF drivers_no_flash drivers_no_flash assms(2)])
  fix tr and taken :: "unit res"
  assume h1: "held c (issued pairs) (h @ tr)" and same: "contents c (h @ tr) = contents c h"
  show "ends E (h @ tr) (case taken of
       Inl e \<Rightarrow> State_Monad.return (Returned e)
     | Inr _ \<Rightarrow> do {
         connected \<leftarrow> connect_at_boot build turns;
         case connected of
           Inl ended \<Rightarrow> State_Monad.return ended
         | Inr wifi_creds \<Rightarrow> do {
             claimed \<leftarrow> claim_hub_after_time_sync build;
             case claimed of
               Inl e \<Rightarrow> State_Monad.return (Returned e)
             | Inr (hub_device_id, jwt) \<Rightarrow> do {
                 command_poller \<leftarrow> main_loop fake_probe hub_device_id jwt cycles;
                 State_Monad.return (Looping command_poller)
               }
           }
       }) (boot_outcome E pairs c h)"
  proof (cases taken)
    case (Inl e)
    with h1 show ?thesis by (simp add: ends_return settled_outcome settled_returned)
  next
    case (Inr u)
    show ?thesis
      unfolding Inr sum.case
    proof (rule ends_bind, rule ends_conseq [OF ends_extends [OF ends_connect_at_boot [OF assms(1) h1 assms(3)]]], elim conjE exE)
      fix h2 pre and r :: "boot_end + wifi_credentials"
      assume r: "connected_by E pairs c (h @ tr) h2 r" and h2: "h2 = (h @ tr) @ pre"
      show "ends E h2 (case r of
           Inl ended \<Rightarrow> State_Monad.return ended
         | Inr wifi_creds \<Rightarrow> do {
             claimed \<leftarrow> claim_hub_after_time_sync build;
             case claimed of
               Inl e \<Rightarrow> State_Monad.return (Returned e)
             | Inr (hub_device_id, jwt) \<Rightarrow> do {
                 command_poller \<leftarrow> main_loop fake_probe hub_device_id jwt cycles;
                 State_Monad.return (Looping command_poller)
               }
           }) (boot_outcome E pairs c h)"
      proof (cases r)
        case (Inl ended)
        with r show ?thesis by (simp add: ends_return connected_by_def settled_outcome)
      next
        case (Inr creds)
        show ?thesis
          unfolding Inr sum.case h2
          by (rule ends_conseq [OF ends_claim_and_loop [OF assms(1,3)]])
            (use r Inr h2 same in \<open>auto intro: boot_outcome_later\<close>)
      qed
    qed
  qed
qed

lemma empty_issued: "fl hub_secret_at = None \<Longrightarrow> held (holding fl) (issued pairs) []"
  by (simp add: held_def issued_def holding_def)

theorem hub_main_outcome_witness:
  "ends (working_env [ssid_at \<mapsto> ''home'', password_at \<mapsto> ''pw'']) [] (hub_main sample_build False 1 1)
     (boot_outcome (working_env [ssid_at \<mapsto> ''home'', password_at \<mapsto> ''pw'']) {(''dev'', ''sec'')}
       (holding [ssid_at \<mapsto> ''home'', password_at \<mapsto> ''pw'']) [])"
  by (rule hub_main_outcome [OF working_faithful empty_issued]) (simp_all add: sample_build_def)

end
