(* ===== verification/First_Boot.thy ===== *)
theory First_Boot
  imports Boot_Props
begin

text \<open>
  Out of the box: with a phone that writes credentials and everything else working, a new hub is
  provisioned, restarts, and the next boot reaches the main loop with what the first one left.
\<close>

section \<open>A boot with everything in the flash\<close>

definition drivers_work :: "env \<Rightarrow> bool" where
  "drivers_work E \<longleftrightarrow> (\<forall>h name. driver_at E h name = Inr ())"

lemma drivers_return: "drivers_work E \<Longrightarrow> returns E take_drivers"
  unfolding take_drivers_def wifi_init_def drivers_work_def
  by (intro returns_try returns_context returns_ask returns_return) auto

lemma healthy_flash: "healthy E creds \<Longrightarrow> flash_reliable E" "healthy E creds \<Longrightarrow> flash_writes E"
  by (simp_all add: healthy_def flash_writes_def)

text \<open>The network that was stored, the token and the identity that were stored, and the loop.\<close>

definition resumed :: "contents \<Rightarrow> wifi_credentials \<Rightarrow> string \<times> string \<Rightarrow> history \<Rightarrow> history \<Rightarrow> boot_end \<Rightarrow> bool" where
  "resumed c creds q h h' r \<longleftrightarrow> (case r of
     Looping p \<Rightarrow> \<exists>pre mid post loop. h' = h @ (pre @ mid @ post) @ loop \<and>
       joined (wc_ssid creds) (wc_password creds) mid \<and> powered True post \<and>
       secured (contents c (h @ pre @ mid @ post)) q \<and>
       orderly (fst q) (snd q) loop \<and> sends_ok [] loop \<and> poller_inv p
   | _ \<Rightarrow> False)"

lemma ends_connect_ready:
  assumes f: "flash_faithful E c" and held: "held c (issued pairs) h"
    and healthy: "healthy E creds" "wc_ssid creds \<noteq> []" and stored: "stored c h creds"
  shows "ends E h (connect_at_boot build turns) (\<lambda>h' r. r = Inr creds \<and> held c (issued pairs) h' \<and>
    contents c h' = contents c h \<and> (\<exists>pre mid. h' = h @ pre @ mid \<and> joined (wc_ssid creds) (wc_password creds) mid))"
proof -
  have load: "ends E h nvs_load (\<lambda>h' r. held c (issued pairs) h' \<and> contents c h' = contents c h \<and>
      (\<exists>tr. h' = h @ tr) \<and> r = Some creds)"
  proof -
    have "contents c h ssid_at = {Some (wc_ssid creds)}" "contents c h password_at = {Some (wc_password creds)}"
      using stored unfolding stored_def by simp_all
    from ends_conj [OF ends_extends [OF ends_nvs_load [OF f this]] ends_nvs_load_held [OF f held]]
    show ?thesis
      by (rule ends_conseq) (use healthy healthy_flash(1) [OF healthy(1)] in \<open>cases creds; auto\<close>)
  qed
  have five: "(5 :: u8) \<noteq> 0" by simp
  have conn: "traced E (wifi_connect (wc_ssid creds) (wc_password creds))
      (\<lambda>tr r. joined (wc_ssid creds) (wc_password creds) tr \<and> r = Val (Inr ()))"
    unfolding wifi_connect_def
    by (rule traced_conseq [OF traced_conj [OF traced_connect_with_attempts [OF five] connect_returns [OF healthy(1) five]]])
      (auto simp: wifi_outcome_def)
  have quiet: "traced E (wifi_connect s w) (\<lambda>tr _. no_flash tr)" for s w
    unfolding wifi_connect_def by (rule connect_no_flash)
  show ?thesis
    unfolding connect_at_boot_def
  proof (rule ends_bind, rule ends_conseq [OF load], elim conjE exE)
    fix h1 tr1 and r :: "wifi_credentials option"
    assume h1: "held c (issued pairs) h1" and same: "contents c h1 = contents c h" and tr1: "h1 = h @ tr1"
      and r: "r = Some creds"
    show "ends E h1 (case r of
       Some creds \<Rightarrow> do {
         connected \<leftarrow> wifi_connect (wc_ssid creds) (wc_password creds);
         case connected of
           Panic \<Rightarrow> State_Monad.return (Inl Panicked)
         | Val (Inr _) \<Rightarrow> State_Monad.return (Inr creds)
         | Val (Inl e) \<Rightarrow> do { ended \<leftarrow> provision_and_restart build turns; State_Monad.return (Inl ended) }
       }
     | None \<Rightarrow> do { ended \<leftarrow> provision_and_restart build turns; State_Monad.return (Inl ended) })
      (\<lambda>h' r. r = Inr creds \<and> held c (issued pairs) h' \<and> contents c h' = contents c h \<and>
        (\<exists>pre mid. h' = h @ pre @ mid \<and> joined (wc_ssid creds) (wc_password creds) mid))"
      unfolding r option.case
    proof (rule ends_bind, rule ends_no_flash [OF quiet conn h1], elim conjE)
      fix tr and v :: "unit res rs"
      assume h2: "held c (issued pairs) (h1 @ tr)" and same2: "contents c (h1 @ tr) = contents c h1"
        and j: "joined (wc_ssid creds) (wc_password creds) tr" and v: "v = Val (Inr ())"
      have "\<exists>pre mid. h1 @ tr = h @ pre @ mid \<and> joined (wc_ssid creds) (wc_password creds) mid"
        using j tr1 by (intro exI [of _ tr1] exI [of _ tr]) simp
      with h2 same2 same show "ends E (h1 @ tr) (case v of
           Panic \<Rightarrow> State_Monad.return (Inl Panicked)
         | Val (Inr _) \<Rightarrow> State_Monad.return (Inr creds)
         | Val (Inl e) \<Rightarrow> do { ended \<leftarrow> provision_and_restart build turns; State_Monad.return (Inl ended) })
        (\<lambda>h' r. r = Inr creds \<and> held c (issued pairs) h' \<and> contents c h' = contents c h \<and>
          (\<exists>pre mid. h' = h @ pre @ mid \<and> joined (wc_ssid creds) (wc_password creds) mid))"
        unfolding v rs.case sum.case by (intro ends_return conjI) simp_all
    qed
  qed
qed

lemma ends_claim_ready:
  assumes f: "flash_faithful E c" and held: "held c (issued pairs) h"
    and build: "(BUILD_DEVICE_ID build, BUILD_HUB_SECRET build) \<in> pairs" "HUB_TOKEN build = None"
    and healthy: "healthy E creds" and q: "secured (contents c h) q"
  shows "ends E h (claim_hub_after_time_sync build) (\<lambda>h' r. r = Inr q \<and> secured (contents c h') q \<and>
    (\<exists>post. h' = h @ post \<and> powered True post))"
proof (rule ends_trace [OF ends_claim_hub [OF f held build(1)]
      traced_conj [OF claim_inert claim_returns [OF healthy, unfolded returns_def]]], elim conjE exE)
  fix tr u and r :: "(string \<times> string) res"
  assume p: "provisioned E pairs build c h (h @ tr) r" and tr: "inert_tr tr" and u: "r = Inr u"
  from secured_boot [OF p build(2) q] u have "secured (contents c (h @ tr)) q" "r = Inr q"
    by (auto simp: got_def)
  with tr show "r = Inr q \<and> secured (contents c (h @ tr)) q \<and> (\<exists>post. h @ tr = h @ post \<and> powered True post)"
    by (simp add: inert_powered)
qed

lemma ends_ready_boot:
  assumes f: "flash_faithful E c" and held: "held c (issued pairs) h"
    and build: "(BUILD_DEVICE_ID build, BUILD_HUB_SECRET build) \<in> pairs" "HUB_TOKEN build = None"
    and healthy: "healthy E creds" "drivers_work E" "wc_ssid creds \<noteq> []"
    and stored: "stored c h creds" and q: "secured (contents c h) q"
  shows "ends E h (hub_main build fake_probe turns cycles) (resumed c creds q h)"
  unfolding hub_main_def
proof (rule ends_bind, rule ends_no_flash [OF drivers_no_flash drivers_return [OF healthy(2), unfolded returns_def] held], elim exE)
  fix tr1 and taken :: "unit res" and u
  assume h1: "held c (issued pairs) (h @ tr1)" and c1: "contents c (h @ tr1) = contents c h" and ok: "taken = Inr u"
  from stored have stored1: "stored c (h @ tr1) creds" unfolding stored_def c1 .
  let ?claim = "do {
      claimed \<leftarrow> claim_hub_after_time_sync build;
      case claimed of
        Inl e \<Rightarrow> State_Monad.return (Returned e)
      | Inr (hub_device_id, jwt) \<Rightarrow> do {
          command_poller \<leftarrow> main_loop fake_probe hub_device_id jwt cycles;
          State_Monad.return (Looping command_poller)
        } }"
  have rest: "ends E h2 ?claim (resumed c creds q h)"
    if h2: "held c (issued pairs) h2" "contents c h2 = contents c h" "h2 = (h @ tr1) @ pre @ mid"
      and j: "joined (wc_ssid creds) (wc_password creds) mid" for h2 pre mid
  proof (rule ends_bind, rule ends_conseq [OF ends_claim_ready [OF f h2(1) build healthy(1), where q = q]], goal_cases)
    case 1
    from q show ?case unfolding h2(2) .
  next
    case (2 h3 r)
    then obtain post where r: "r = Inr (fst q, snd q)" and s: "secured (contents c h3) q"
      and post: "h3 = h2 @ post" "powered True post" by auto
    have h3: "h3 = h @ (tr1 @ pre) @ mid @ post" using post h2(3) by simp
    show ?case
      unfolding r sum.case prod.case
    proof (rule ends_bind, rule ends_traced [OF faithful_main_loop], rule ends_return)
      fix loop p assume "faithful (fst q) (snd q) empty_poller loop p"
      then have "orderly (fst q) (snd q) loop" "sends_ok [] loop" "poller_inv p"
        by (simp_all add: faithful_def inv_empty_poller)
      moreover have "h3 @ loop = h @ ((tr1 @ pre) @ mid @ post) @ loop" using h3 by simp
      ultimately show "resumed c creds q h (h3 @ loop) (Looping p)"
        using s [unfolded h3] j post(2) unfolding resumed_def boot_end.case by blast
    qed
  qed
  show "ends E (h @ tr1) (case taken of
       Inl e \<Rightarrow> State_Monad.return (Returned e)
     | Inr _ \<Rightarrow> do {
         connected \<leftarrow> connect_at_boot build turns;
         case connected of
           Inl ended \<Rightarrow> State_Monad.return ended
         | Inr wifi_creds \<Rightarrow> ?claim
       }) (resumed c creds q h)"
    unfolding ok sum.case
    by (rule ends_bind, rule ends_conseq [OF ends_connect_ready [OF f h1 healthy(1,3) stored1]])
      (use rest c1 in auto)
qed


section \<open>The first boot\<close>

text \<open>Whatever a boot does before provisioning, the phone's script has not started.\<close>

lemma drivers_no_writes: "traced E take_drivers (\<lambda>tr _. count is_writes tr = 0)"
  unfolding take_drivers_def wifi_init_def
  by (intro traced_intro) (auto intro!: traced_intro split: sum.splits)

lemma load_no_writes: "traced E nvs_load (\<lambda>tr _. count is_writes tr = 0)"
  unfolding nvs_load_def open_nvs_def nvs_open_def nvs_store_read_str_def nvs_str_len_def nvs_get_str_def
  by (auto intro!: traced_intro split: sum.splits option.splits)

text \<open>It restarts the device last, with everything in the flash.\<close>

definition installed ::
  "(string \<times> string) set \<Rightarrow> contents \<Rightarrow> wifi_credentials \<Rightarrow> history \<Rightarrow> boot_end \<Rightarrow> bool" where
  "installed pairs c creds h' r \<longleftrightarrow> r = Restarted \<and> (\<exists>h. h' = h @ [SleepMs 500, EspRestart]) \<and>
     held c (issued pairs) h' \<and> stored c h' creds \<and> (\<exists>q. secured (contents c h') q)"

lemma ends_first_provisioning:
  assumes f: "flash_faithful E c" and held: "held c (issued pairs) h"
    and pair: "(BUILD_DEVICE_ID build, BUILD_HUB_SECRET build) \<in> pairs"
    and healthy: "healthy E creds"
    and script: "scripted E script" "first_pair script (count is_writes h) turns no_pending = Some creds"
  shows "ends E h (provision_and_restart build turns) (installed pairs c creds)"
  unfolding provision_and_restart_def
proof (rule ends_bind, rule ends_conseq [OF ends_conj [OF ends_wifi_prov_run [OF f held pair] ends_prov_run [OF script(1) healthy script(2)]]],
    elim conjE exE)
  fix h1 hub and r :: "provisioned_hub res rs option"
  assume run: "run_credentialed E pairs c h1 r" and r: "r = Some (Val (Inr hub))" and creds: "ph_credentials hub = creds"
  let ?h = "(h1 @ [SleepMs 500]) @ [EspRestart]"
  have same: "contents c ?h = contents c h1" by simp
  have "held c (issued pairs) ?h"
    using no_flash_held [OF _ run_held [OF run], of "[SleepMs 500, EspRestart]"] by simp
  moreover have "stored c ?h creds" "secured (contents c ?h) (ph_hub_device_id hub, ph_jwt hub)"
    using run r creds healthy_flash(2) [OF healthy] unfolding run_credentialed_def stored_def same by auto
  moreover have "?h = h1 @ [SleepMs 500, EspRestart]" by simp
  ultimately have "installed pairs c creds ?h Restarted"
    unfolding installed_def by blast
  then show "ends E h1 (case r of
       None \<Rightarrow> State_Monad.return Provisioning
     | Some Panic \<Rightarrow> State_Monad.return Panicked
     | Some (Val (Inl e)) \<Rightarrow> State_Monad.return (Returned e)
     | Some (Val (Inr hub)) \<Rightarrow> restart_after_successful_provisioning hub) (installed pairs c creds)"
    unfolding r option.case rs.case sum.case restart_after_successful_provisioning_def
    by (intro ends_bind ends_emit ends_return)
qed

lemma ends_first_boot:
  assumes f: "flash_faithful E c" and held: "held c (issued pairs) h"
    and pair: "(BUILD_DEVICE_ID build, BUILD_HUB_SECRET build) \<in> pairs"
    and healthy: "healthy E creds" "drivers_work E"
    and script: "scripted E script" "first_pair script 0 turns no_pending = Some creds" "count is_writes h = 0"
    and none: "contents c h ssid_at = {None}"
  shows "ends E h (hub_main build fake_probe turns cycles) (installed pairs c creds)"
  unfolding hub_main_def
proof (rule ends_bind, rule ends_no_flash [OF drivers_no_flash
      traced_conj [OF drivers_no_writes drivers_return [OF healthy(2), unfolded returns_def]] held], elim exE conjE)
  fix tr1 and taken :: "unit res" and u
  assume h1: "held c (issued pairs) (h @ tr1)" and c1: "contents c (h @ tr1) = contents c h" and ok: "taken = Inr u"
    and w1: "count is_writes tr1 = 0"
  have load: "ends E (h @ tr1) nvs_load (\<lambda>h' r. r = None \<and> held c (issued pairs) h' \<and> count is_writes h' = 0)"
  proof (rule ends_trace [OF ends_nvs_load_held [OF f h1, unfolded c1 none] load_no_writes], elim conjE)
    fix tr and r :: "wifi_credentials option"
    assume "held c (issued pairs) ((h @ tr1) @ tr)" "count is_writes tr = 0"
      and "case r of Some creds \<Rightarrow> Some (wc_ssid creds) \<in> {None} \<and>
        Some (wc_password creds) \<in> contents c h password_at | None \<Rightarrow> True"
    then show "r = None \<and> held c (issued pairs) ((h @ tr1) @ tr) \<and> count is_writes ((h @ tr1) @ tr) = 0"
      using w1 script(3) by (cases r) simp_all
  qed
  have prov: "ends E h' (provision_and_restart build turns) (installed pairs c creds)"
    if "held c (issued pairs) h'" "count is_writes h' = 0" for h'
    by (rule ends_first_provisioning [OF f that(1) pair healthy(1) script(1)]) (simp add: that(2) script(2))
  show "ends E (h @ tr1) (case taken of
       Inl e \<Rightarrow> State_Monad.return (Returned e)
     | Inr _ \<Rightarrow> do {
         connected \<leftarrow> connect_at_boot build turns;
         case connected of
           Inl ended \<Rightarrow> State_Monad.return ended
         | Inr wifi_creds \<Rightarrow> do {
      claimed \<leftarrow> claim_hub_after_time_sync build;
      case claimed of
        Inl e \<Rightarrow> State_Monad.return (Returned e)
      | Inr (hub_device_id, jwt) \<Rightarrow> do {
          command_poller \<leftarrow> main_loop fake_probe hub_device_id jwt cycles;
          State_Monad.return (Looping command_poller)
        } }
       }) (installed pairs c creds)"
    unfolding ok sum.case connect_at_boot_def
    by (rule ends_bind, rule ends_bind, rule ends_conseq [OF load])
      (auto intro!: ends_bind ends_return ends_conseq [OF prov])
qed


section \<open>Out of the box\<close>

text \<open>Switching a new hub on, and the boot after its restart.\<close>

definition two_boots :: "build_env \<Rightarrow> bool \<Rightarrow> nat \<Rightarrow> nat \<Rightarrow> (boot_end \<times> boot_end) io" where
  "two_boots build fake_probe turns cycles = do {
     first \<leftarrow> hub_main build fake_probe turns cycles;
     second \<leftarrow> hub_main build fake_probe turns cycles;
     State_Monad.return (first, second)
   }"

text \<open>
  C2: a new hub gets to work. When the phone writes an SSID and its password and everything the hub
  depends on works, the first boot ends with a restart that leaves the credentials, a token and an identity
  in the flash; and the next boot joins this network and reaches the main loop with this token and this
  identity.
\<close>

theorem new_hub_works:
  assumes "flash_faithful E c" and "held c (issued pairs) []" and "contents c [] ssid_at = {None}"
    and "(BUILD_DEVICE_ID build, BUILD_HUB_SECRET build) \<in> pairs" and "HUB_TOKEN build = None"
    and "healthy E creds" and "drivers_work E" and "wc_ssid creds \<noteq> []"
    and "scripted E script" and "first_pair script 0 turns no_pending = Some creds"
  shows "ends E [] (two_boots build fake_probe turns cycles) (\<lambda>h (first, second).
    \<exists>h1 q. installed pairs c creds h1 first \<and> secured (contents c h1) q \<and> resumed c creds q h1 h second)"
  unfolding two_boots_def
proof (rule ends_bind, rule ends_conseq [OF ends_first_boot [OF assms(1,2,4,6,7,9,10) _ assms(3)]])
  fix h1 first
  assume i: "installed pairs c creds h1 first"
  then obtain q where q: "held c (issued pairs) h1" "stored c h1 creds" "secured (contents c h1) q"
    unfolding installed_def by blast
  show "ends E h1 (do { second \<leftarrow> hub_main build fake_probe turns cycles; State_Monad.return (first, second) })
    (\<lambda>h (first, second). \<exists>h1 q. installed pairs c creds h1 first \<and> secured (contents c h1) q \<and> resumed c creds q h1 h second)"
    by (rule ends_bind, rule ends_conseq [OF ends_ready_boot [OF assms(1) q(1) assms(4,5,6,7,8) q(2,3)]], rule ends_return)
      (use i q(3) in blast)
qed simp

theorem new_hub_works_witness:
  "ends phone_env [] (two_boots sample_build False 2 1) (\<lambda>h (first, second). \<exists>h1 q.
     installed {(''dev'', ''sec'')} (holding Map.empty) \<lparr>wc_ssid = ''home'', wc_password = ''pw''\<rparr> h1 first \<and>
     secured (contents (holding Map.empty) h1) q \<and>
     resumed (holding Map.empty) \<lparr>wc_ssid = ''home'', wc_password = ''pw''\<rparr> q h1 h second)"
proof (rule new_hub_works)
  show "flash_faithful phone_env (holding Map.empty)"
    using working_faithful [of Map.empty] by (simp add: flash_faithful_def phone_env_def)
  show "held (holding Map.empty) (issued {(''dev'', ''sec'')}) []" by (rule empty_issued) simp
  show "contents (holding Map.empty) [] ssid_at = {None}" by (simp add: holding_def)
  show "scripted phone_env phone" by (rule phone_scripted)
  show "healthy phone_env \<lparr>wc_ssid = ''home'', wc_password = ''pw''\<rparr>" by (rule phone_healthy)
  show "first_pair phone 0 2 no_pending = Some \<lparr>wc_ssid = ''home'', wc_password = ''pw''\<rparr>" by (rule phone_pair)
  show "drivers_work phone_env"
    by (simp add: drivers_work_def phone_env_def working_env_def calm_env_def)
qed (simp_all add: sample_build_def)

section \<open>A network that is away at boot\<close>

fun is_gatt :: "event \<Rightarrow> bool" where
  "is_gatt (Gatt _) = True"
| "is_gatt _ = False"

fun is_wifi :: "event \<Rightarrow> bool" where
  "is_wifi (Wifi _) = True"
| "is_wifi _ = False"

text \<open>The network is out of range when the device boots, and nobody uses the phone.\<close>

definition outage :: "env \<Rightarrow> bool" where
  "outage E \<longleftrightarrow> (\<forall>h. count is_gatt h = 0 \<longrightarrow> wifi_scan_at (wifi_of E) h = Inr []) \<and>
     (\<forall>h. client_writes_at (gatt_of E) h = [] \<and> adv_set_data_at (gatt_of E) h = Inr () \<and>
       adv_start_at (gatt_of E) h = Inr ())"

lemma silent_turns:
  assumes "outage E"
  shows "traced E (prov_turns claim_hub n no_pending) (\<lambda>tr r. r = None \<and> count is_wifi tr = 0)"
proof (induction n)
  case 0
  show ?case by (simp add: traced_return)
next
  case (Suc n)
  have empty: "next_pending_credentials_state no_pending = (Empty, no_pending)"
    by (simp add: next_pending_credentials_state_def take_complete_def no_pending_def)
  have writes: "traced E (ask (\<lambda>E h. client_writes_at (gatt_of E) h) (\<lambda>ws. Gatt (ClientWrites ws)))
      (\<lambda>tr ws. ws = [] \<and> count is_wifi tr = 0)"
    by (rule traced_ask_exact) (use assms in \<open>simp add: outage_def\<close>)
  show ?case
    unfolding prov_turns.simps
    by (rule traced_bind, rule traced_emit, rule traced_bind, rule traced_conseq [OF writes])
      (auto simp: empty intro!: traced_bind traced_return traced_conseq [OF Suc])
qed

lemma drivers_no_gatt: "traced E take_drivers (\<lambda>tr _. count is_gatt tr = 0)"
  unfolding take_drivers_def wifi_init_def
  by (intro traced_intro) (auto intro!: traced_intro split: sum.splits)

lemma load_no_gatt: "traced E nvs_load (\<lambda>tr _. count is_gatt tr = 0)"
  unfolding nvs_load_def open_nvs_def nvs_open_def nvs_store_read_str_def nvs_str_len_def nvs_get_str_def
  by (auto intro!: traced_intro split: sum.splits option.splits)

lemma outage_connect:
  assumes "outage E" "count is_gatt h = 0"
  shows "ends E h (wifi_connect s w) (\<lambda>_ r. \<exists>e. r = Val (Inl e))"
  using assms unfolding wifi_connect_def connect_with_attempts_def try_rs_def wifi_ask_def Let_def outage_def
  by (intro ends_intro) auto

lemma silent_provisioning:
  assumes "outage E"
  shows "traced E (provision_and_restart build n) (\<lambda>tr r. r = Provisioning \<and>
    (\<exists>after. tr = Gatt (GattService PROV_SERVICE_UUID) # after \<and> count is_wifi after = 0))"
  using assms
  unfolding provision_and_restart_def wifi_prov_run_def create_characteristics_def advertise_def
    set_status_def set_value_def outage_def
  by (auto intro!: traced_bind traced_try traced_emit traced_ask_exact traced_return
      traced_conseq [OF silent_turns [OF assms]])

text \<open>
  C35: as written, an outage at boot strands the hub. When the stored network is out of range while
  the hub boots, it goes into provisioning, and while nobody uses the phone it stays there and never tries
  the network again, for any number of turns and whether or not the network comes back.
\<close>

theorem outage_strands_hub:
  assumes "outage E" and "drivers_work E"
  shows "ends E [] (hub_main build fake_probe turns cycles) (\<lambda>h r. r = Provisioning \<and>
    (\<exists>before after. h = before @ Gatt (GattService PROV_SERVICE_UUID) # after \<and> count is_wifi after = 0))"
  unfolding hub_main_def
proof (rule ends_bind, rule ends_traced [OF traced_conj [OF drivers_no_gatt drivers_return [OF assms(2), unfolded returns_def]]], elim conjE exE)
  fix tr1 and taken :: "unit res" and u
  assume tr1: "count is_gatt tr1 = 0" and ok: "taken = Inr u"
  let ?Q = "\<lambda>h r. r = Provisioning \<and>
    (\<exists>before after. h = before @ Gatt (GattService PROV_SERVICE_UUID) # after \<and> count is_wifi after = 0)"
  have prov: "ends E h (provision_and_restart build turns) ?Q" for h
    by (rule ends_traced [OF silent_provisioning [OF assms(1)]]) blast
  have "ends E ([] @ tr1) (connect_at_boot build turns) (\<lambda>h r. \<exists>e. r = Inl e \<and> ?Q h e)"
    unfolding connect_at_boot_def
  proof (rule ends_bind, rule ends_traced [OF load_no_gatt])
    fix tr2 and stored :: "wifi_credentials option"
    assume "count is_gatt tr2 = 0"
    with tr1 have no: "count is_gatt (tr1 @ tr2) = 0" by simp
    show "ends E (([] @ tr1) @ tr2) (case stored of
        Some creds \<Rightarrow> do {
          connected \<leftarrow> wifi_connect (wc_ssid creds) (wc_password creds);
          case connected of
            Panic \<Rightarrow> State_Monad.return (Inl Panicked)
          | Val (Inr _) \<Rightarrow> State_Monad.return (Inr creds)
          | Val (Inl e) \<Rightarrow> do { ended \<leftarrow> provision_and_restart build turns; State_Monad.return (Inl ended) }
        }
      | None \<Rightarrow> do { ended \<leftarrow> provision_and_restart build turns; State_Monad.return (Inl ended) })
      (\<lambda>h r. \<exists>e. r = Inl e \<and> ?Q h e)"
      by (cases stored; auto intro!: ends_bind ends_return ends_conseq [OF prov] ends_conseq [OF outage_connect [OF assms(1) no]];
        blast)
  qed
  then show "ends E ([] @ tr1) (case taken of
       Inl e \<Rightarrow> State_Monad.return (Returned e)
     | Inr _ \<Rightarrow> do {
         connected \<leftarrow> connect_at_boot build turns;
         case connected of
           Inl ended \<Rightarrow> State_Monad.return ended
         | Inr wifi_creds \<Rightarrow> do {
             claimed \<leftarrow> claim_hub_after_time_sync build;
             case claimed of
               Inl e \<Rightarrow> State_Monad.return (Returned e)
             | Inr (hub_device_id, jwt) \<Rightarrow> do {
                 command_poller \<leftarrow> main_loop fake_probe hub_device_id jwt cycles;
                 State_Monad.return (Looping command_poller)
               }
           }
       }) ?Q"
    unfolding ok sum.case by (intro ends_bind, elim ends_conseq) (auto intro: ends_return)
qed

definition away_env :: env where
  "away_env = (working_env [ssid_at \<mapsto> ''home'', password_at \<mapsto> ''pw''])\<lparr>wifi_of := (wifi_of calm_env)\<lparr>wifi_scan_at := \<lambda>h. if count is_gatt h = 0 then Inr [] else Inr [''home'']\<rparr>\<rparr>"

theorem outage_strands_hub_witness:
  "ends away_env [] (hub_main sample_build False 100 1) (\<lambda>h r. r = Provisioning \<and>
    (\<exists>before after. h = before @ Gatt (GattService PROV_SERVICE_UUID) # after \<and> count is_wifi after = 0))"
  by (rule outage_strands_hub) (simp_all add: outage_def drivers_work_def away_env_def working_env_def calm_env_def)

end
