(* ===== verification/Build_Identity.thy ===== *)
theory Build_Identity
  imports Hex_Uuid
begin

text \<open>
  The build script (\<open>build.rs\<close>): the identity a build of the firmware carries, taken from the environment,
  read back from the identity file, or generated. A build that panics fails. Of the standard library,
  \<open>lines\<close>, the path operations and the hexadecimal format are modelled; the machine is a parameter.
\<close>

section \<open>The host of a build\<close>

text \<open>
  What the script asks of the machine that builds: the environment (\<open>None\<close> also for a variable that
  is not UTF-8), whether directories can be created and files written, and the bytes the \<open>i\<close>-th read
  from \<open>/dev/urandom\<close> fills a buffer of length \<open>n\<close> with. The files are passed along; one that is not UTF-8
  counts as absent.
\<close>

record build_host =
  env_var :: "string \<Rightarrow> string option"
  create_dir_ok :: bool
  write_ok :: bool
  urandom :: "nat \<Rightarrow> nat \<Rightarrow> bytes option"

type_synonym files = "string \<Rightarrow> string option"

definition DEFAULT_HUB_NAME :: string where "DEFAULT_HUB_NAME = ''HarvestHub-Dev''"
definition IDENTITY_FILE_NAME :: string where "IDENTITY_FILE_NAME = ''harvesthub-dev-identity.env''"

record hub_identity =
  hi_device_id :: string
  hi_hub_secret :: string

section \<open>Random bytes as text\<close>

text \<open>\<open>read_exact\<close> fills the buffer or fails; the \<open>{:02x}\<close> of the standard library.\<close>

definition fill_random :: "build_host \<Rightarrow> nat \<Rightarrow> nat \<Rightarrow> bytes rs" where
  "fill_random host i n = (case urandom host i n of
     Some bs \<Rightarrow> if length bs = n then Val bs else Panic
   | None \<Rightarrow> Panic)"

definition lower_hex2 :: "u8 \<Rightarrow> string" where
  "lower_hex2 b = [''0123456789abcdef'' ! (unat b div 16), ''0123456789abcdef'' ! (unat b mod 16)]"

primrec hex_string :: "bytes \<Rightarrow> string" where
  "hex_string [] = []"
| "hex_string (byte # bytes) = lower_hex2 byte @ hex_string bytes"

fun uuid_v4_from :: "nat \<Rightarrow> bytes \<Rightarrow> string" where
  "uuid_v4_from i [] = []"
| "uuid_v4_from i (byte # bytes) =
     (if i \<in> {4, 6, 8, 10} then ''-'' else []) @ lower_hex2 byte @ uuid_v4_from (Suc i) bytes"

definition stamp_v4 :: "bytes \<Rightarrow> bytes" where
  "stamp_v4 bytes = (let bytes = bytes[6 := (bytes ! 6 AND 0x0f) OR 0x40] in
     bytes[8 := (bytes ! 8 AND 0x3f) OR 0x80])"

definition generate_uuid_v4 :: "build_host \<Rightarrow> nat \<Rightarrow> string rs" where
  "generate_uuid_v4 host i = rs_bind (fill_random host i 16) (\<lambda>bytes. Val (uuid_v4_from 0 (stamp_v4 bytes)))"

definition generate_hex_secret :: "build_host \<Rightarrow> nat \<Rightarrow> string rs" where
  "generate_hex_secret host i = rs_bind (fill_random host i 32) (\<lambda>bytes. Val (hex_string bytes))"

section \<open>The identity file\<close>

text \<open>\<open>Path::join\<close> of a relative name.\<close>

definition path_join :: "string \<Rightarrow> string \<Rightarrow> string" where
  "path_join dir name = (if dir = [] \<or> last dir = CHR ''/'' then dir @ name else dir @ ''/'' @ name)"

definition identity_file_path :: "build_host \<Rightarrow> string rs" where
  "identity_file_path host = (case env_var host ''CARGO_MANIFEST_DIR'' of
     None \<Rightarrow> Panic
   | Some manifest_dir \<Rightarrow> Val (path_join (path_join manifest_dir ''target'') IDENTITY_FILE_NAME))"

text \<open>\<open>str::lines\<close>: a final line break ends the last line; a carriage return before a line break goes.\<close>

fun split_inclusive :: "string \<Rightarrow> string list" where
  "split_inclusive [] = []"
| "split_inclusive (c # s) =
     (if c = CHR 0x0A then [c] # split_inclusive s
      else case split_inclusive s of [] \<Rightarrow> [[c]] | l # ls \<Rightarrow> (c # l) # ls)"

definition strip_suffix :: "char \<Rightarrow> string \<Rightarrow> string option" where
  "strip_suffix c s = (if s \<noteq> [] \<and> last s = c then Some (butlast s) else None)"

definition line_of :: "string \<Rightarrow> string" where
  "line_of line = (case strip_suffix (CHR 0x0A) line of
     None \<Rightarrow> line
   | Some line \<Rightarrow> (case strip_suffix (CHR 0x0D) line of None \<Rightarrow> line | Some line \<Rightarrow> line))"

definition str_lines :: "string \<Rightarrow> string list" where
  "str_lines s = map line_of (split_inclusive s)"

definition strip_prefix :: "string \<Rightarrow> string \<Rightarrow> string option" where
  "strip_prefix p s = (if take (length p) s = p then Some (drop (length p) s) else None)"

fun parse_line :: "string \<Rightarrow> string option \<times> string option \<Rightarrow> string option \<times> string option" where
  "parse_line line (device_id, hub_secret) =
     (case strip_prefix ''HUB_DEVICE_ID='' line of
        Some v \<Rightarrow> (Some v, hub_secret)
      | None \<Rightarrow> (case strip_prefix ''HUB_SECRET='' line of
          Some v \<Rightarrow> (device_id, Some v)
        | None \<Rightarrow> (device_id, hub_secret)))"

definition parse_identity_file :: "string \<Rightarrow> hub_identity option" where
  "parse_identity_file content = (case fold parse_line (str_lines content) (None, None) of
     (Some device_id, Some hub_secret) \<Rightarrow> Some \<lparr>hi_device_id = device_id, hi_hub_secret = hub_secret\<rparr>
   | _ \<Rightarrow> None)"

definition identity_text :: "hub_identity \<Rightarrow> string" where
  "identity_text identity = ''HUB_DEVICE_ID='' @ hi_device_id identity @ [CHR 0x0A] @
     ''HUB_SECRET='' @ hi_hub_secret identity @ [CHR 0x0A]"

section \<open>The script\<close>

definition env_identity :: "build_host \<Rightarrow> hub_identity option" where
  "env_identity host = (case env_var host ''HUB_DEVICE_ID'' of
     None \<Rightarrow> None
   | Some device_id \<Rightarrow> (case env_var host ''HUB_SECRET'' of
       None \<Rightarrow> None
     | Some hub_secret \<Rightarrow> Some \<lparr>hi_device_id = device_id, hi_hub_secret = hub_secret\<rparr>))"

definition generated_identity :: "build_host \<Rightarrow> files \<Rightarrow> (hub_identity \<times> files) rs" where
  "generated_identity host fs =
     rs_bind (identity_file_path host) (\<lambda>identity_path.
     case Option.bind (fs identity_path) parse_identity_file of
       Some identity \<Rightarrow> Val (identity, fs)
     | None \<Rightarrow>
         rs_bind (generate_uuid_v4 host 0) (\<lambda>device_id.
         rs_bind (generate_hex_secret host 1) (\<lambda>hub_secret.
         let identity = \<lparr>hi_device_id = device_id, hi_hub_secret = hub_secret\<rparr> in
         if \<not> create_dir_ok host then Panic
         else if \<not> write_ok host then Panic
         else Val (identity, fs(identity_path \<mapsto> identity_text identity)))))"

definition print_setup_payload :: "hub_identity \<Rightarrow> string \<Rightarrow> string list" where
  "print_setup_payload identity hub_name =
     [''cargo:warning=HarvestHub setup hub_uuid='' @ hi_device_id identity,
      ''cargo:warning=HarvestHub setup hub_name='' @ hub_name,
      ''cargo:warning=HarvestHub setup credentials stored securely in target/'' @ IDENTITY_FILE_NAME @
        '' (uri redacted)'']"

text \<open>The lines \<open>main\<close> prints for cargo, after those of \<open>embuild\<close>, and the files it leaves.\<close>

definition build_main :: "build_host \<Rightarrow> files \<Rightarrow> (string list \<times> files) rs" where
  "build_main host fs =
     (let hub_name = (case env_var host ''HUB_NAME'' of Some name \<Rightarrow> name | None \<Rightarrow> DEFAULT_HUB_NAME) in
      rs_bind (case env_identity host of Some identity \<Rightarrow> Val (identity, fs) | None \<Rightarrow> generated_identity host fs)
        (\<lambda>(identity, fs). Val (
          [''cargo:rustc-env=HUB_DEVICE_ID='' @ hi_device_id identity,
           ''cargo:rustc-env=HUB_SECRET='' @ hi_hub_secret identity,
           ''cargo:rustc-env=HUB_NAME='' @ hub_name] @ print_setup_payload identity hub_name, fs)))"

section \<open>Text of random bytes\<close>

lemma hex_char_nibble: "n < 16 \<Longrightarrow> ''0123456789abcdef'' ! n = hex_digit (word_of_nat n)"
proof -
  have "\<forall>n\<in>set [0..<16]. ''0123456789abcdef'' ! n = hex_digit (word_of_nat n)" by code_simp
  then show "n < 16 \<Longrightarrow> ?thesis" by simp
qed

lemma lower_hex2_digits: "lower_hex2 b = [hex_digit (drop_bit 4 b), hex_digit (b AND 0x0f)]"
proof -
  have q: "unat b div 16 < 16" using unat_u8_less [of b] by linarith
  then have "unat b div 16 mod 256 = unat b div 16" by simp
  then have "word_of_nat (unat b div 16) = drop_bit 4 b"
    by (simp add: word_unat_eq_iff unat_drop_bit_eq drop_bit_eq_div unat_of_nat take_bit_eq_mod unat_div)
  moreover have "word_of_nat (unat b mod 16) = b AND 0x0f"
    unfolding low_nibble_take_bit by (simp add: word_unat_eq_iff unat_of_nat take_bit_eq_mod unat_mod)
  ultimately show ?thesis using q by (simp add: lower_hex2_def hex_char_nibble)
qed

lemma uuid_v4_from_expand: "uuid_v4_from i bs = expand_from i bs"
  by (induction i bs rule: uuid_v4_from.induct) (simp_all add: lower_hex2_digits)


definition hex_chars :: "char set" where
  "hex_chars = set ''0123456789abcdef''"

lemma lower_hex2_chars: "set (lower_hex2 b) \<subseteq> hex_chars"
proof -
  have "''0123456789abcdef'' ! n \<in> hex_chars" if "n < 16" for n
    unfolding hex_chars_def using that by (intro nth_mem) simp
  moreover have "unat b div 16 < 16" using unat_u8_less [of b] by linarith
  ultimately show ?thesis
    unfolding lower_hex2_def by (simp del: nth_Cons_numeral)
qed

lemma hex_string_chars: "set (hex_string bs) \<subseteq> hex_chars"
  by (induction bs) (use lower_hex2_chars in auto)

lemma length_hex_string: "length (hex_string bs) = 2 * length bs"
  by (induction bs) (simp_all add: lower_hex2_def)


section \<open>The identity file is read back\<close>

text \<open>Texts a line can hold: no line break inside, no carriage return at the end.\<close>

definition one_line :: "string \<Rightarrow> bool" where
  "one_line s \<longleftrightarrow> CHR 0x0A \<notin> set s \<and> (s \<noteq> [] \<longrightarrow> last s \<noteq> CHR 0x0D)"

lemma split_inclusive_line:
  "CHR 0x0A \<notin> set l \<Longrightarrow> split_inclusive (l @ CHR 0x0A # rest) = (l @ [CHR 0x0A]) # split_inclusive rest"
  by (induction l) auto

lemma line_of_line: "one_line l \<Longrightarrow> line_of (l @ [CHR 0x0A]) = l"
  by (auto simp: line_of_def strip_suffix_def one_line_def)

lemma str_lines_line:
  "one_line l \<Longrightarrow> str_lines (l @ CHR 0x0A # rest) = l # str_lines rest"
  by (simp add: str_lines_def split_inclusive_line line_of_line one_line_def)

lemma str_lines_last: "CHR 0x0A \<notin> set l \<Longrightarrow> l \<noteq> [] \<Longrightarrow> str_lines l = [l]"
proof -
  assume l: "CHR 0x0A \<notin> set l" "l \<noteq> []"
  from l(1) have "split_inclusive l = (if l = [] then [] else [l])" by (induction l) auto
  with l(2) have "split_inclusive l = [l]" by simp
  moreover from l have "last l \<noteq> CHR 0x0A" by (metis last_in_set)
  ultimately show "str_lines l = [l]" by (simp add: str_lines_def line_of_def strip_suffix_def)
qed

lemma one_line_prefixed: "one_line v \<Longrightarrow> CHR 0x0A \<notin> set p \<Longrightarrow> p \<noteq> [] \<Longrightarrow> last p \<noteq> CHR 0x0D \<Longrightarrow> one_line (p @ v)"
  by (cases "v = []") (auto simp: one_line_def)

lemma parse_line_device: "parse_line (''HUB_DEVICE_ID='' @ v) (d, s) = (Some v, s)"
  by (simp add: strip_prefix_def)

lemma parse_line_secret: "parse_line (''HUB_SECRET='' @ v) (d, s) = (d, Some v)"
  by (simp add: strip_prefix_def)

lemma parse_identity_text:
  assumes "one_line (hi_device_id identity)" "one_line (hi_hub_secret identity)"
  shows "parse_identity_file (identity_text identity) = Some identity"
proof -
  let ?d = "''HUB_DEVICE_ID='' @ hi_device_id identity" and ?s = "''HUB_SECRET='' @ hi_hub_secret identity"
  have lines: "one_line ?d" "one_line ?s"
    using assms by (intro one_line_prefixed; simp)+
  have "identity_text identity = ?d @ CHR 0x0A # ?s @ CHR 0x0A # []"
    by (simp add: identity_text_def)
  then have "str_lines (identity_text identity) = [?d, ?s]"
    using str_lines_line [OF lines(1)] str_lines_line [OF lines(2)] by (simp only: str_lines_def split_inclusive.simps list.map)
  then show ?thesis
    unfolding parse_identity_file_def by (simp only: fold_simps parse_line_device parse_line_secret) simp
qed


interpretation identity_file: codec identity_text parse_identity_file
  "\<lambda>identity. one_line (hi_device_id identity) \<and> one_line (hi_hub_secret identity)"
  by unfold_locales (simp add: parse_identity_text)

section \<open>What is generated\<close>

lemma uuid_v4_from_chars: "set (uuid_v4_from i bs) \<subseteq> insert (CHR ''-'') hex_chars"
  by (induction i bs rule: uuid_v4_from.induct) (use lower_hex2_chars in auto)

lemma one_line_chars: "set s \<subseteq> insert (CHR ''-'') hex_chars \<Longrightarrow> one_line s"
proof -
  have no: "CHR 0x0A \<notin> insert (CHR ''-'') hex_chars" "CHR 0x0D \<notin> insert (CHR ''-'') hex_chars"
    by (simp_all add: hex_chars_def)
  assume s: "set s \<subseteq> insert (CHR ''-'') hex_chars"
  have "last s \<noteq> CHR 0x0D" if "s \<noteq> []"
  proof
    assume "last s = CHR 0x0D"
    with that have "CHR 0x0D \<in> set s" by (metis last_in_set)
    from no(2) subsetD [OF s this] show False by (rule notE)
  qed
  moreover have "CHR 0x0A \<notin> set s" using no(1) s by (rule contra_subsetD [rotated])
  ultimately show "one_line s" unfolding one_line_def by simp
qed

lemma generated_one_line: "one_line (uuid_v4_from i bs)" "one_line (hex_string bs)"
  using uuid_v4_from_chars [of i bs] hex_string_chars [of bs] by (intro one_line_chars; blast)+

lemma fill_random_Val: "fill_random host i n = Val bs \<longleftrightarrow> urandom host i n = Some bs \<and> length bs = n"
  by (auto simp: fill_random_def split: option.splits if_splits)

lemma stamp_v4_bits:
  assumes "length bs = 16"
  shows "length (stamp_v4 bs) = 16" "drop_bit 4 (stamp_v4 bs ! 6) = 4" "drop_bit 6 (stamp_v4 bs ! 8) = 2"
proof -
  show "length (stamp_v4 bs) = 16" using assms by (simp add: stamp_v4_def Let_def)
  have "drop_bit 4 ((b AND 0x0f) OR 0x40) = (4 :: u8)" for b :: u8
    by (rule bit_word_eqI) (auto simp: bit_simps)
  then show "drop_bit 4 (stamp_v4 bs ! 6) = 4" using assms by (simp add: stamp_v4_def Let_def)
  have "drop_bit 6 ((b AND 0x3f) OR 0x80) = (2 :: u8)" for b :: u8
    by (rule bit_word_eqI) (auto simp: bit_simps)
  then show "drop_bit 6 (stamp_v4 bs ! 8) = 2" using assms by (simp add: stamp_v4_def Let_def)
qed


lemma stamp_v4_rest:
  assumes "length bs = 16"
  shows "take_bit 4 (stamp_v4 bs ! 6) = take_bit 4 (bs ! 6)" "take_bit 6 (stamp_v4 bs ! 8) = take_bit 6 (bs ! 8)"
    "(stamp_v4 bs)[6 := 0, 8 := 0] = bs[6 := 0, 8 := 0]"
proof -
  have "take_bit 4 (64 :: u8) = 0" by (simp add: take_bit_eq_mod word_unat_eq_iff unat_mod)
  then have "take_bit 4 ((b AND 0x0f) OR 0x40) = take_bit 4 b" for b :: u8
    by (simp only: low_nibble_take_bit take_bit_or) simp
  then show "take_bit 4 (stamp_v4 bs ! 6) = take_bit 4 (bs ! 6)" using assms by (simp add: stamp_v4_def Let_def)
  have "mask 6 = (63 :: u8)" by (simp add: mask_eq_exp_minus_1)
  then have low: "b AND 63 = take_bit 6 b" for b :: u8 by (simp add: take_bit_eq_mask)
  have "take_bit 6 (128 :: u8) = 0" by (simp add: take_bit_eq_mod word_unat_eq_iff unat_mod)
  then have "take_bit 6 ((b AND 0x3f) OR 0x80) = take_bit 6 b" for b :: u8
    by (simp only: low take_bit_or) simp
  then show "take_bit 6 (stamp_v4 bs ! 8) = take_bit 6 (bs ! 8)" using assms by (simp add: stamp_v4_def Let_def)
  show "(stamp_v4 bs)[6 := 0, 8 := 0] = bs[6 := 0, 8 := 0]"
    by (simp add: stamp_v4_def Let_def list_update_swap)
qed

lemma length_uuid_text: "length bs = 16 \<Longrightarrow> length (uuid_text bs) = 36"
proof -
  have "[0..<16] = [0, 1, 2, 3, 4, 5, 6, 7, 8, 9, 10, 11, 12, 13, 14, 15 :: nat]"
    by (simp add: upt_rec)
  then show "length bs = 16 \<Longrightarrow> ?thesis" by (simp add: uuid_text_def length_expand_from)
qed

text \<open>The bytes can be read back from the text.\<close>

lemma hex_string_digits: "map_option pair_up (uuid_digits (hex_string bs)) = Some bs"
proof (induction bs)
  case (Cons b bs)
  then obtain vs where vs: "uuid_digits (hex_string bs) = Some vs" "pair_up vs = bs" by auto
  have "uuid_digits (hex_string (b # bs)) = Some (drop_bit 4 b # (b AND 15) # vs)"
    using vs(1)
    by (simp add: uuid_digits_def lower_hex2_digits bytes_of_str_Cons hex_digit_eq nibble_to_hex_not_hyphen
        hex_nibble_to_hex high_nibble_le low_nibble_le)
  with vs(2) show ?case by (simp add: join_nibbles)
qed (simp add: uuid_digits_def)

section \<open>Identity of a build: the properties\<close>

lemma generate_uuid_v4_Val:
  "generate_uuid_v4 host i = Val s \<longleftrightarrow>
     (\<exists>bs. urandom host i 16 = Some bs \<and> length bs = 16 \<and> s = uuid_v4_from 0 (stamp_v4 bs))"
  by (auto simp: generate_uuid_v4_def rs_bind_Val_iff fill_random_Val)

lemma generate_hex_secret_Val:
  "generate_hex_secret host i = Val s \<longleftrightarrow> (\<exists>bs. urandom host i 32 = Some bs \<and> length bs = 32 \<and> s = hex_string bs)"
  by (auto simp: generate_hex_secret_def rs_bind_Val_iff fill_random_Val)

lemma generated_identity_Val:
  "generated_identity host fs = Val (identity, fs') \<longleftrightarrow>
     (\<exists>path. identity_file_path host = Val path \<and>
       (case Option.bind (fs path) parse_identity_file of
          Some found \<Rightarrow> identity = found \<and> fs' = fs
        | None \<Rightarrow> generate_uuid_v4 host 0 = Val (hi_device_id identity) \<and>
            generate_hex_secret host 1 = Val (hi_hub_secret identity) \<and>
            create_dir_ok host \<and> write_ok host \<and> fs' = fs(path \<mapsto> identity_text identity)))"
proof (cases "identity_file_path host")
  case (Val path)
  show ?thesis
    by (cases "Option.bind (fs path) parse_identity_file"; cases identity)
      (auto simp: Val generated_identity_def rs_bind_Val_iff Let_def)
qed (simp add: generated_identity_def)

text \<open>
  C33: what a build generates is well formed. The device id is the text of a version 4 UUID: 36
  characters from which the parser of the hub reads 16 bytes with the version and variant bits
  of RFC 4122, the other bits random; the secret is 64 lowercase hexadecimal digits that determine 32 random bytes.
\<close>

theorem generated_identity_wellformed:
  assumes "generated_identity host fs = Val (identity, fs')"
    and "identity_file_path host = Val path" and "Option.bind (fs path) parse_identity_file = None"
  shows "length (hi_device_id identity) = 36 \<and>
    (\<exists>raw uuid. urandom host 0 16 = Some raw \<and>
      parse_uuid_compact_bytes (hi_device_id identity) (replicate 16 0) = Inr uuid \<and>
      drop_bit 4 (uuid ! 6) = 4 \<and> drop_bit 6 (uuid ! 8) = 2 \<and>
      take_bit 4 (uuid ! 6) = take_bit 4 (raw ! 6) \<and> take_bit 6 (uuid ! 8) = take_bit 6 (raw ! 8) \<and>
      uuid[6 := 0, 8 := 0] = raw[6 := 0, 8 := 0]) \<and>
    length (hi_hub_secret identity) = 64 \<and> set (hi_hub_secret identity) \<subseteq> set ''0123456789abcdef'' \<and>
    (\<exists>raw. urandom host 1 32 = Some raw \<and> map_option pair_up (uuid_digits (hi_hub_secret identity)) = Some raw)"
proof -
  from assms obtain bs cs where bs: "urandom host 0 16 = Some bs" "length bs = 16"
      "hi_device_id identity = uuid_text (stamp_v4 bs)"
    and cs: "urandom host 1 32 = Some cs" "length cs = 32" "hi_hub_secret identity = hex_string cs"
    by (auto simp: generated_identity_Val generate_uuid_v4_Val generate_hex_secret_Val uuid_v4_from_expand uuid_text_def)
  note v4 = stamp_v4_bits [OF bs(2)]
  have id: "parse_uuid_compact_bytes (hi_device_id identity) (replicate 16 0) = Inr (stamp_v4 bs)"
    using parse_expand [OF v4(1), of "replicate 16 0"] bs(3) by (simp add: uuid_text_def)
  show ?thesis
    using id v4 bs cs length_hex_string [of cs] hex_string_chars [of cs] hex_string_digits [of cs] stamp_v4_rest [OF bs(2)]
    by (auto simp: length_uuid_text hex_chars_def)
qed


lemma generated_identity_again:
  assumes "generated_identity host fs = Val (identity, fs')" "identity_file_path host' = identity_file_path host"
    and "\<And>path. identity_file_path host = Val path \<Longrightarrow> fs'' path = fs' path"
  shows "generated_identity host' fs'' = Val (identity, fs'')"
proof -
  from assms(1) obtain path where path: "identity_file_path host = Val path"
    by (auto simp: generated_identity_Val)
  have "Option.bind (fs' path) parse_identity_file = Some identity"
  proof (cases "Option.bind (fs path) parse_identity_file")
    case None
    with assms(1) path have "generate_uuid_v4 host 0 = Val (hi_device_id identity)"
      "generate_hex_secret host 1 = Val (hi_hub_secret identity)" "fs' path = Some (identity_text identity)"
      by (auto simp: generated_identity_Val)
    then show ?thesis
      using generated_one_line by (auto simp: generate_uuid_v4_Val generate_hex_secret_Val parse_identity_text)
  qed (use assms(1) path in \<open>auto simp: generated_identity_Val\<close>)
  with assms(2,3) path show ?thesis by (auto simp: generated_identity_Val)
qed

text \<open>
  C34: rebuilding keeps the identity. Without an identity in the environment, a build and every later build
  for the same crate and name print the same lines for cargo: the identity a build generated is the one
  later builds read back from the file, which they leave alone, whatever else they change or draw.
\<close>

theorem rebuild_keeps_identity:
  assumes "build_main host fs = Val (out, fs')" and "env_identity host = None" and "env_identity host' = None"
    and "env_var host' ''CARGO_MANIFEST_DIR'' = env_var host ''CARGO_MANIFEST_DIR''"
    and "env_var host' ''HUB_NAME'' = env_var host ''HUB_NAME''"
    and "\<And>path. identity_file_path host = Val path \<Longrightarrow> fs'' path = fs' path"
  shows "build_main host' fs'' = Val (out, fs'')"
proof -
  from assms(1,2) obtain identity where g: "generated_identity host fs = Val (identity, fs')"
    by (auto simp: build_main_def rs_bind_Val_iff Let_def split: prod.splits)
  have "identity_file_path host' = identity_file_path host"
    using assms(4) by (simp add: identity_file_path_def)
  from generated_identity_again [OF g this assms(6)] assms(1,2,3,5) g show ?thesis
    by (simp add: build_main_def Let_def)
qed

text \<open>A host with a fixed sequence of bytes.\<close>

definition sample_host :: build_host where
  "sample_host = \<lparr>env_var = [''CARGO_MANIFEST_DIR'' \<mapsto> ''/hub''], create_dir_ok = True, write_ok = True,
     urandom = \<lambda>i n. Some (replicate n 0xff)\<rparr>"

definition sample_identity :: hub_identity where
  "sample_identity = \<lparr>hi_device_id = ''ffffffff-ffff-4fff-bfff-ffffffffffff'', hi_hub_secret = replicate 64 (CHR ''f'')\<rparr>"

lemma sample_path: "identity_file_path sample_host = Val ''/hub/target/harvesthub-dev-identity.env''"
  by (simp add: identity_file_path_def sample_host_def path_join_def IDENTITY_FILE_NAME_def)

lemma sample_host_simps:
  "urandom sample_host i n = Some (replicate n 0xff)" "create_dir_ok sample_host" "write_ok sample_host"
  by (simp_all add: sample_host_def)

lemma sample_generated: "generated_identity sample_host Map.empty =
    Val (sample_identity, [''/hub/target/harvesthub-dev-identity.env'' \<mapsto> identity_text sample_identity])"
proof -
  have "uuid_v4_from 0 (stamp_v4 (replicate 16 0xff)) = ''ffffffff-ffff-4fff-bfff-ffffffffffff''"
    "hex_string (replicate 32 0xff) = replicate 64 (CHR ''f'')" by code_simp+
  then show ?thesis
    by (simp add: generated_identity_def sample_path generate_uuid_v4_def generate_hex_secret_def fill_random_def
        sample_host_simps Let_def sample_identity_def)
qed

theorem generated_identity_wellformed_witness:
  "length ''ffffffff-ffff-4fff-bfff-ffffffffffff'' = 36 \<and>
   map_option pair_up (uuid_digits (replicate 64 (CHR ''f''))) = Some (replicate 32 0xff)"
  using generated_identity_wellformed [OF sample_generated sample_path]
  by (auto simp: sample_host_def sample_identity_def)

theorem rebuild_keeps_identity_witness:
  "\<exists>out fs'. build_main sample_host Map.empty = Val (out, fs') \<and>
     build_main (sample_host\<lparr>urandom := \<lambda>i n. Some (replicate n 0)\<rparr>) fs' = Val (out, fs')"
proof -
  have none: "env_identity sample_host = None" "env_identity (sample_host\<lparr>urandom := \<lambda>i n. Some (replicate n 0)\<rparr>) = None"
    by (simp_all add: env_identity_def sample_host_def)
  obtain out fs' where m: "build_main sample_host Map.empty = Val (out, fs')"
    by (simp add: build_main_def Let_def none sample_generated)
  from rebuild_keeps_identity [OF m none, of fs'] m show ?thesis by simp
qed

text \<open>
  As written, a file that was cut short is taken as it is: after an interrupted write the builds use a
  shorter secret.
\<close>

theorem cut_secret_accepted:
  assumes "one_line (hi_device_id identity)" "CHR 0x0A \<notin> set (hi_hub_secret identity)"
  shows "\<exists>n. parse_identity_file (take n (identity_text identity)) =
    Some (identity\<lparr>hi_hub_secret := take k (hi_hub_secret identity)\<rparr>)"
proof -
  let ?d = "''HUB_DEVICE_ID='' @ hi_device_id identity" and ?s = "''HUB_SECRET='' @ take k (hi_hub_secret identity)"
  let ?n = "length (?d @ [CHR 0x0A] @ ?s)"
  have d: "one_line ?d" using assms(1) by (intro one_line_prefixed; simp)
  have "CHR 0x0A \<notin> set ?s" using assms(2) by (auto dest: in_set_takeD)
  then have s: "str_lines ?s = [?s]" by (intro str_lines_last) auto
  have cut: "take (length a) (a @ b) = a" for a b :: string by simp
  have "identity_text identity = (?d @ [CHR 0x0A] @ ?s) @ drop k (hi_hub_secret identity) @ [CHR 0x0A]"
    by (simp add: identity_text_def)
  then have "take ?n (identity_text identity) = ?d @ CHR 0x0A # ?s"
    by (simp only: cut) simp
  then have "str_lines (take ?n (identity_text identity)) = [?d, ?s]"
    using str_lines_line [OF d] s by (simp only:)
  then have "parse_identity_file (take ?n (identity_text identity)) =
      Some (identity\<lparr>hi_hub_secret := take k (hi_hub_secret identity)\<rparr>)"
    unfolding parse_identity_file_def by (simp only: fold_simps parse_line_device parse_line_secret) simp
  then show ?thesis ..
qed

theorem cut_secret_accepted_witness:
  "\<exists>n. parse_identity_file (take n (identity_text sample_identity)) =
    Some \<lparr>hi_device_id = ''ffffffff-ffff-4fff-bfff-ffffffffffff'', hi_hub_secret = ''ff''\<rparr>"
  using cut_secret_accepted [of sample_identity 2]
  by (simp add: sample_identity_def one_line_def eval_nat_numeral)

end
