(* ===== verification/Spec2Isabelle.thy ===== *)
theory Spec2Isabelle
  imports First_Boot Build_Identity
begin

text \<open>
  Verification of the HarvestHub hub firmware (\<open>src/\<close>, a Rust program for an ESP32).

  The program. A hub scans for probes over Bluetooth LE, reads their sensors, uploads the readings to
  a backend over gRPC, pulls motor commands from the backend, writes them to the probe they are meant
  for when it is in range, and reports to the backend what became of each command. One thread does all
  of it (\<open>src/src/main.rs\<close>). At boot it loads Wi-Fi credentials from the flash and connects; without
  credentials or without a connection it lets a phone provision it over Bluetooth and restarts. Then it
  synchronises the clock, gets its identity (fixed by the build, \<open>src/build.rs\<close>) and its token (stored, or
  claimed once from the backend), and enters an endless loop: scan, one session per candidate, upload,
  handling of what the session said about motor commands, a poll, a pause. A mutex, the radio gate,
  keeps BLE use and gRPC calls apart because they compete for memory.

  How it is modelled. A handler is a program of the state monad over a \<open>world\<close>: an environment
  that answers every call the code makes into ESP-IDF, NimBLE, tonic or the clock, and the history
  of the calls made so far with their answers (\<open>World\<close>). The environment is a parameter of every
  statement: each of its answers is an arbitrary function of the history, so a statement holds for
  all radios, probes, phones, networks, backends and clocks. A Rust error is \<open>Inl\<close>, a panic is \<open>Panic\<close>,
  machine integers are words of their width, an \<open>f64\<close> is its rational value.
  \<open>traced E m Q\<close> states that the program \<open>m\<close> ends and that the events it adds and its result
  satisfy \<open>Q\<close>; \<open>ends E h m Q\<close> states the same of the whole history when \<open>m\<close> starts with history \<open>h\<close>
  (\<open>Runs\<close>). So every theorem of either form includes that the code returns.

  Assumptions. Safety statements about the loop, the sessions, the poller, the Wi-Fi connection and
  the truthfulness of provisioning assume nothing of the environment. Statements about stored data assume
  \<open>flash_faithful\<close>: what a read of the flash answers is a value the key may hold after the writes so far, a
  failed write leaving the old or the new value. Statements that something is reached assume that
  what it needs works (\<open>healthy\<close>, \<open>drivers_work\<close>) and what the phone writes (\<open>scripted\<close>). \<open>unrevoked\<close> is
  what \<open>src/src/auth.rs\<close> says of the backend after a claim, as long as the user does not revoke the hub. Each such theorem has an instance with a concrete environment.

  The theories, in the order of the program's layers:

  \<^item> \<open>Hub_Prelude\<close>: integers, panicking slice operations, strings as bytes, the \<open>codec\<close> contract.
  \<^item> \<open>World\<close>: events, environments, the trace calculus, \<open>trace_relation\<close> and \<open>trace_monoid\<close> (what is
    kept by sequencing), and a concrete environment for evaluation.
  \<^item> \<open>Config\<close>: \<open>src/src/config.rs\<close>. \<open>Time_Source\<close>: the clock readings of \<open>time.rs\<close> and \<open>polling.rs\<close>.
  \<^item> \<open>Hex_Uuid\<close>: the text form of command ids (\<open>expand_command_id\<close>, \<open>command_id_label\<close>,
    \<open>parse_uuid_compact_bytes\<close>); a codec.
  \<^item> \<open>Motor_Payload\<close>: the payloads exchanged with probes (\<open>build_motor_command_payload\<close>,
    \<open>parse_motor_result_payload\<close>) with the probe's side of both; two codecs.
  \<^item> \<open>Radio_Gate\<close>: \<open>RadioMemoryGate\<close> and the discipline of its users as an automaton over traces.
  \<^item> \<open>Hub_Client\<close>: \<open>src/src/grpc.rs\<close>: connection, authorization header, the three calls.
  \<^item> \<open>Dedup\<close>: \<open>CommandDedupSet\<close> of \<open>src/src/polling.rs\<close>, an interpretation of the contract \<open>admission\<close>.
  \<^item> \<open>Poller\<close>: \<open>CommandPoller\<close>; \<open>Poller_Spec\<close>: its handlers as step relations, which they refine;
    \<open>Poller_Props\<close>: the invariant \<open>poller_inv\<close>, what becomes of commands and results.
  \<^item> \<open>Utf8\<close>, \<open>Probe_Adv\<close>: recognition of probes in advertisements and the scan (\<open>src/src/ble.rs\<close>).
  \<^item> \<open>Sensor_Decode\<close>: characteristic values as numbers, with IEEE rounding.
  \<^item> \<open>Ble_Session\<close>, \<open>Ble_Props\<close>: sessions with probes, what is written to them and when.
  \<^item> \<open>Uplink\<close>: upload of a reading with retries. \<open>Main_Loop\<close>, \<open>Main_Props\<close>: the loop of \<open>main\<close>.
  \<^item> \<open>Runs\<close>: programs from a given history, \<open>?\<close> and \<open>.context\<close>. \<open>Flash\<close>: what the flash may hold after a
    history, invariants of it at every moment, the contract \<open>string_reader\<close>.
  \<^item> \<open>Persist\<close> (\<open>src/src/persist.rs\<close>) and \<open>Wifi_Store\<close> (\<open>src/src/nvs_store.rs\<close>): identity, token and Wi-Fi
    credentials in the flash; the two interpretations of \<open>string_reader\<close>.
  \<^item> \<open>Claim_Hub\<close>: \<open>get_sync_sntp\<close> of \<open>time.rs\<close>, \<open>src/src/auth.rs\<close>, \<open>provision_hub\<close> of \<open>main.rs\<close>.
  \<^item> \<open>Wifi\<close>: \<open>src/src/wifi.rs\<close>. \<open>Wifi_Prov\<close>: \<open>src/src/wifi_prov.rs\<close>; \<open>Prov_Props\<close>: what is tried and what the
    phone is shown; \<open>Prov_Ends\<close>: that provisioning ends.
  \<^item> \<open>Boot\<close>: \<open>main\<close> from its first line; \<open>Boot_Props\<close>: what a boot comes to; \<open>First_Boot\<close>: from a new hub
    to the main loop, and a boot during an outage.
  \<^item> \<open>Build_Identity\<close>: \<open>src/build.rs\<close>, over a machine with files, variables and random bytes; a codec.

  What the lemmas show. Formats: encoders and parsers are inverse to each other, parsers never
  panic, and exactly the documented inputs are accepted. Poller: each handler does what its relation
  says on every branch; the queue, the duplicate set and the applied results stay consistent; a
  command is admitted at most once while it is remembered; a dispatch settles the command that was
  offered to the probe and no other. Sessions: a reading is decoded from bytes read in the session,
  a motor command is written at most once and only before its expiry. Loop: over any number of turns
  the gate is used properly, every call carries the hub's credentials, and a command is reported as
  sent to its probe only after a write of that command which the probe acknowledged. Storage: losing power
  at any moment never puts a secret beside a foreign id; saved credentials are loaded; a call
  that obtains the token claims only when needed, and all such calls agree on id and token. Provisioning: only pairs the phone meant
  are tried, the status it sees is true of the Wi-Fi and of the claim, and with everything working it ends. Boot: the loop is reached
  only online, with a synchronised clock and stored credentials, and a new hub does reach it. Build: a
  generated identity is well formed and kept by later builds. Some properties state limits of the
  code as it is written (their texts say so).

  Loops. \<open>for\<close> loops are recursions over the list (\<open>for_each\<close>, and the 30 looks at the clock status, the
  attempts to connect and to upload over the list of attempts); the two endless loops, of
  provisioning and of \<open>main\<close>, are cut after a number of turns that is an argument, and statements hold for
  every number; the end of provisioning is proved for every number of turns that includes the first
  complete pair. No fuel is used. The writes of the phone are delivered once per turn of provisioning,
  where the loop looks at them.

  Not modelled: log output (\<open>log_heap\<close>, \<open>log_setup_probes\<close>); \<open>link_patches\<close>, the logger and
  \<open>init_device\<close>, which return nothing the code looks at; the connection, timeout and buffer settings of tonic
  and NimBLE and the buffer-size adapter \<open>SmallBufferProstCodec\<close> of \<open>grpc.rs\<close>, which only configure these libraries; the
  numbering of the generated protobuf enumerations (\<open>MotorCommandAction::try_from\<close> is a parameter,
  \<open>action_try_from\<close>); the lines \<open>embuild\<close> prints.
\<close>

end
